theory Spec2Isabelle
  imports Main "HOL-Library.Sublist"
begin

section \<open>The editing session of code4fun (src/components/EditorTabs.tsx)\<close>

text \<open>
  The component \<^verbatim>\<open>EditorTabs\<close> owns three text buffers, two history stacks, two
  debounce timers, the favourites and recents lists and the snippet panel. It is modelled
  as a record of that state, and every function of the component as a function from the
  state to the new state.

  Conventions of the model.
  \<^item> A JavaScript string is a \<open>string\<close>; a \<open>char\<close> stands for a code unit below 256.
  \<^item> An array used as a stack keeps its order: \<^verbatim>\<open>push\<close> appends at the end, \<^verbatim>\<open>pop\<close>
    removes the last element, \<^verbatim>\<open>shift\<close> removes the first.
  \<^item> Time is a natural number of milliseconds. A pending \<^verbatim>\<open>setTimeout\<close> is the time
    at which it is due; \<open>advance\<close> lets time pass and runs the callbacks that become due.
  \<^item> The calls of the \<^verbatim>\<open>onChange\<close> prop (the external sink) are logged in order.
  \<^item> \<^verbatim>\<open>Math.random\<close> (in \<^verbatim>\<open>uid\<close>), the DOM parser, the \<^verbatim>\<open>Function\<close> constructor and
    the selection of the mounted textarea are inputs of the functions that read them.
  \<^item> An event handler runs against the state variables of the last render. A call of a
    state setter is an update of the record; where the handler reads a state variable
    after setting it, the model reads the state the handler started in. The render that
    follows a handler, with its effect on the holder, is \<open>afterRender\<close>.
  \<^item> A snapshot is a value. In the source \<^verbatim>\<open>applyHistoryState\<close> stores the stack entry
    itself in the holder, so that until the next render replaces the holder an assignment
    to a field of \<^verbatim>\<open>latestRef.current\<close> also changes that entry. The properties below are
    about the lengths of the stacks, the snapshots pushed and applied, the buffers and
    the calls of the sink, none of which such an assignment changes.
\<close>

subsection \<open>Data\<close>

datatype TabKey = Html | Css | Js

datatype SnipKind = KHtml | KCss | KJs | KAll

record Snip =
  snip_id :: "string option"
  label :: string
  snippet :: string
  kind :: SnipKind
  description :: "string option"
  tags :: "string list option"

record HistoryState =
  html :: string
  css :: string
  js :: string

datatype Level = Error | Warning

record Lint =
  level :: Level
  message :: string

record LintMessage = Lint +
  source :: "string option"

text \<open>
  What the browser reports for a text. The DOM parser returns a document without a
  \<^verbatim>\<open>parsererror\<close> element, or one with such an element and its \<^verbatim>\<open>textContent\<close>, or
  throws. The \<^verbatim>\<open>Function\<close> constructor accepts the text or throws an error that may
  carry a message.
\<close>

datatype domOutcome = NoParserError | ParserError "string option" | ParserThrows

datatype ctorOutcome = Constructed | CtorThrows "string option"

type_synonym domParser = "string \<Rightarrow> domOutcome"

type_synonym functionCtor = "string \<Rightarrow> ctorOutcome"

record session =
  rendered :: HistoryState \<comment> \<open>the state variables \<^verbatim>\<open>html\<close>, \<^verbatim>\<open>css\<close>, \<^verbatim>\<open>js\<close> of the last render\<close>
  latestRef :: HistoryState
  activeTab :: TabKey
  showSnippet :: bool
  showDocs :: bool
  query :: string
  favs :: "Snip list"
  recent :: "Snip list"
  storedFavs :: "Snip list" \<comment> \<open>localStorage, key \<^verbatim>\<open>editor_snippet_favs_v1\<close>\<close>
  storedRecent :: "Snip list" \<comment> \<open>localStorage, key \<^verbatim>\<open>editor_snippet_recent_v1\<close>\<close>
  errors :: "LintMessage list"
  undoStack :: "HistoryState list"
  redoStack :: "HistoryState list"
  isComposing :: bool
  assistKind :: SnipKind
  assistTitle :: string
  assistBody :: string
  assistResponsive :: bool
  assistIncludeButton :: bool
  assistResult :: "Snip option"
  onChangeTimer :: "nat option"
  validationTimer :: "(nat \<times> TabKey option) option"
  clock :: nat
  delivered :: "HistoryState list"

subsection \<open>Strings\<close>

definition isUpperAZ :: "char \<Rightarrow> bool" where
  "isUpperAZ c = (let n = (of_char c :: nat) in 65 \<le> n \<and> n \<le> 90)"

definition isLowerAZ :: "char \<Rightarrow> bool" where
  "isLowerAZ c = (let n = (of_char c :: nat) in 97 \<le> n \<and> n \<le> 122)"

definition isDigit :: "char \<Rightarrow> bool" where
  "isDigit c = (let n = (of_char c :: nat) in 48 \<le> n \<and> n \<le> 57)"

text \<open>The class \<^verbatim>\<open>\w\<close> of a regular expression without the unicode flag.\<close>

definition isWordChar :: "char \<Rightarrow> bool" where
  "isWordChar c = (isUpperAZ c \<or> isLowerAZ c \<or> isDigit c \<or> c = CHR ''_'')"

text \<open>The class \<^verbatim>\<open>\s\<close>, which is also what \<^verbatim>\<open>trim\<close> removes: tab, line feed, vertical
  tab, form feed, carriage return, space and no-break space.\<close>

definition isSpace :: "char \<Rightarrow> bool" where
  "isSpace c = (let n = (of_char c :: nat) in (9 \<le> n \<and> n \<le> 13) \<or> n = 32 \<or> n = 160)"

definition lowerChar :: "char \<Rightarrow> char" where
  "lowerChar c =
     (let n = (of_char c :: nat)
      in if (65 \<le> n \<and> n \<le> 90) \<or> (192 \<le> n \<and> n \<le> 222 \<and> n \<noteq> 215)
         then char_of (n + 32) else c)"

definition toLowerCase :: "string \<Rightarrow> string" where
  "toLowerCase s = map lowerChar s"

definition trim :: "string \<Rightarrow> string" where
  "trim s = rev (dropWhile isSpace (rev (dropWhile isSpace s)))"

definition startsWith :: "string \<Rightarrow> string \<Rightarrow> bool" where
  "startsWith s p = prefix p s"

definition includesStr :: "string \<Rightarrow> string \<Rightarrow> bool" where
  "includesStr s p = sublist p s"

definition endsWith :: "string \<Rightarrow> string \<Rightarrow> bool" where
  "endsWith s p = suffix p s"

fun join :: "string \<Rightarrow> string list \<Rightarrow> string" where
  "join sep [] = []"
| "join sep [x] = x"
| "join sep (x # y # ys) = x @ sep @ join sep (y # ys)"

subsection \<open>Validators\<close>

text \<open>
  \<^verbatim>\<open>validateHTML\<close> asks the DOM parser and reports the trimmed text of a
  \<^verbatim>\<open>parsererror\<close> element when there is one; \<^verbatim>\<open>validateJS\<close> hands the text to the
  \<^verbatim>\<open>Function\<close> constructor, which parses it without running it, and reports the message
  of the error thrown. Both browser functions are parameters.
\<close>

definition validateHTML :: "domParser \<Rightarrow> string \<Rightarrow> Lint list" where
  "validateHTML parse str =
     (case parse str of
        NoParserError \<Rightarrow> []
      | ParserError txt \<Rightarrow>
          [\<lparr>level = Error,
            message = (case txt of
                         None \<Rightarrow> ''HTML parse error''
                       | Some t \<Rightarrow> if trim t = [] then ''HTML parse error'' else trim t)\<rparr>]
      | ParserThrows \<Rightarrow> [\<lparr>level = Error, message = ''HTML parse failed''\<rparr>])"

definition validateJS :: "functionCtor \<Rightarrow> string \<Rightarrow> Lint list" where
  "validateJS construct str =
     (case construct str of
        Constructed \<Rightarrow> []
      | CtorThrows m \<Rightarrow>
          [\<lparr>level = Error,
            message = (case m of
                         None \<Rightarrow> ''JS syntax error''
                       | Some msg \<Rightarrow> if msg = [] then ''JS syntax error'' else msg)\<rparr>])"

text \<open>
  The brace loop of \<^verbatim>\<open>validateCSS\<close>: the running balance \<open>open\<close>, and whether the loop
  left through its \<^verbatim>\<open>break\<close> (balance below \<open>-5\<close>).
\<close>

fun scanBraces :: "int \<Rightarrow> string \<Rightarrow> int \<times> bool" where
  "scanBraces opn [] = (opn, False)"
| "scanBraces opn (c # cs) =
     (let o1 = (if c = CHR ''{'' then opn + 1 else opn);
          o2 = (if c = CHR ''}'' then o1 - 1 else o1)
      in if o2 < - 5 then (o2, True) else scanBraces o2 cs)"

text \<open>
  The test \<^verbatim>\<open>/\b[A-Z]+\b/.test(str)\<close>. A match starts at a word boundary in front of a
  capital letter, so the character before it is no word character (or there is none);
  it takes capital letters and ends at a word boundary, so what follows the last capital
  letter taken is no word character (or the end). \<open>upperRun\<close> is \<^verbatim>\<open>[A-Z]*\b\<close> after one
  capital letter has been taken; inside a run of capital letters there is no boundary.
  \<open>matchFrom\<close> tries the start positions from left to right, knowing whether the
  character before the position is a word character.
\<close>

fun upperRun :: "string \<Rightarrow> bool" where
  "upperRun [] = True"
| "upperRun (c # cs) = (if isUpperAZ c then upperRun cs else \<not> isWordChar c)"

fun matchFrom :: "bool \<Rightarrow> string \<Rightarrow> bool" where
  "matchFrom pw [] = False"
| "matchFrom pw (c # cs) =
     ((\<not> pw \<and> isUpperAZ c \<and> upperRun cs) \<or> matchFrom (isWordChar c) cs)"

definition upperWordTest :: "string \<Rightarrow> bool" where
  "upperWordTest str = matchFrom False str"

definition caseWarning :: Lint where
  "caseWarning =
     \<lparr>level = Warning,
      message = ''CSS properties appear uppercase - CSS is case-sensitive for some values''\<rparr>"

definition validateCSS :: "string \<Rightarrow> Lint list" where
  "validateCSS str =
     (let (opn, broke) = scanBraces 0 str
      in (if broke then [\<lparr>level = Error, message = ''Unexpected '}'' @ [CHR 0x27]\<rparr>] else [])
         @ (if opn > 0 then [\<lparr>level = Error, message = ''Missing closing '}'' @ [CHR 0x27]\<rparr>] else [])
         @ (if upperWordTest str then [caseWarning] else []))"

subsection \<open>The propagation channel\<close>

text \<open>
  \<^verbatim>\<open>flushOnChange\<close> cancels the pending timer; an immediate flush calls the sink with a
  copy of \<^verbatim>\<open>latestRef.current\<close>, a deferred one arms a timer of 400 ms whose callback
  reads \<^verbatim>\<open>latestRef.current\<close> when it runs. What the sink throws is caught and dropped.
\<close>

definition fireOnChange :: "session \<Rightarrow> session" where
  "fireOnChange s = s\<lparr>delivered := delivered s @ [latestRef s], onChangeTimer := None\<rparr>"

definition flushOnChange :: "bool \<Rightarrow> session \<Rightarrow> session" where
  "flushOnChange immediate s =
     (let s1 = s\<lparr>onChangeTimer := None\<rparr>
      in if immediate then s1\<lparr>delivered := delivered s1 @ [latestRef s1]\<rparr>
         else s1\<lparr>onChangeTimer := Some (clock s1 + 400)\<rparr>)"

subsection \<open>The history engine\<close>

definition HISTORY_LIMIT :: nat where
  "HISTORY_LIMIT = 60"

definition pushHistorySnapshot :: "HistoryState \<Rightarrow> bool \<Rightarrow> session \<Rightarrow> session" where
  "pushHistorySnapshot snap replaceLatest s =
     (let u = undoStack s;
          u1 = (if replaceLatest \<and> length u > 0 then u[length u - 1 := snap]
                else (let u2 = u @ [snap]
                      in if length u2 > HISTORY_LIMIT then tl u2 else u2))
      in s\<lparr>undoStack := u1, redoStack := []\<rparr>)"

text \<open>
  \<^verbatim>\<open>applyHistoryState\<close> sets the three state variables and the holder to the state and
  flushes to the sink. Its animation-frame callback only moves the caret of the mounted
  textarea to the end of its text.
\<close>

definition applyHistoryState :: "HistoryState \<Rightarrow> session \<Rightarrow> session" where
  "applyHistoryState state s = flushOnChange True (s\<lparr>rendered := state, latestRef := state\<rparr>)"

definition undo :: "session \<Rightarrow> session" where
  "undo s =
     (if length (undoStack s) \<le> 1 then s
      else (let top = last (undoStack s);
                u1 = butlast (undoStack s);
                r1 = redoStack s @ [top];
                prev = last u1
            in applyHistoryState prev (s\<lparr>undoStack := u1, redoStack := r1\<rparr>)))"

definition redo :: "session \<Rightarrow> session" where
  "redo s =
     (if redoStack s = [] then s
      else (let top = last (redoStack s);
                r1 = butlast (redoStack s);
                u1 = undoStack s @ [top]
            in applyHistoryState top (s\<lparr>redoStack := r1, undoStack := u1\<rparr>)))"

subsection \<open>Debounced validation\<close>

definition withSource :: "string \<Rightarrow> Lint \<Rightarrow> LintMessage" where
  "withSource src r = \<lparr>level = level r, message = message r, source = Some src\<rparr>"

text \<open>
  The callback of the validation timer; \<open>tab = None\<close> validates all three buffers. The
  three validators never throw, so the \<^verbatim>\<open>catch\<close> of the callback is not reached. Once the
  callback has run no timer is pending; the source leaves the id of the timer that ran in
  \<^verbatim>\<open>validationTimer.current\<close>, where it only feeds a later \<^verbatim>\<open>clearTimeout\<close>.
\<close>

definition runValidation :: "domParser \<Rightarrow> functionCtor \<Rightarrow> TabKey option \<Rightarrow> session \<Rightarrow> session" where
  "runValidation parse construct tab s =
     (let current = latestRef s;
          r1 = (if tab = None \<or> tab = Some Html
                then map (withSource ''HTML'') (validateHTML parse (html current)) else []);
          r2 = (if tab = None \<or> tab = Some Css
                then r1 @ map (withSource ''CSS'') (validateCSS (css current)) else r1);
          r3 = (if tab = None \<or> tab = Some Js
                then r2 @ map (withSource ''JS'') (validateJS construct (js current)) else r2)
      in s\<lparr>errors := take 6 r3, validationTimer := None\<rparr>)"

definition scheduleValidation :: "TabKey option \<Rightarrow> session \<Rightarrow> session" where
  "scheduleValidation tab s = s\<lparr>validationTimer := Some (clock s + 600, tab)\<rparr>"

subsection \<open>Time\<close>

text \<open>
  \<open>advance d\<close> is \<open>d\<close> milliseconds in which no event arrives: each timer that is due by
  then runs its callback. The two callbacks write different parts of the state and both
  only read the holder, so the order in which two due timers run makes no difference.
\<close>

definition advance :: "domParser \<Rightarrow> functionCtor \<Rightarrow> nat \<Rightarrow> session \<Rightarrow> session" where
  "advance parse construct d s =
     (let t = clock s + d;
          s1 = (case onChangeTimer s of
                  Some due \<Rightarrow> if due \<le> t then fireOnChange s else s
                | None \<Rightarrow> s);
          s2 = (case validationTimer s1 of
                  Some (due, tab) \<Rightarrow>
                    if due \<le> t then runValidation parse construct tab s1 else s1
                | None \<Rightarrow> s1)
      in s2\<lparr>clock := t\<rparr>)"

subsection \<open>Typing\<close>

definition setBuffer :: "TabKey \<Rightarrow> string \<Rightarrow> HistoryState \<Rightarrow> HistoryState" where
  "setBuffer tab v h =
     (case tab of Html \<Rightarrow> h\<lparr>html := v\<rparr> | Css \<Rightarrow> h\<lparr>css := v\<rparr> | Js \<Rightarrow> h\<lparr>js := v\<rparr>)"

definition getBuffer :: "TabKey \<Rightarrow> HistoryState \<Rightarrow> string" where
  "getBuffer tab h = (case tab of Html \<Rightarrow> html h | Css \<Rightarrow> css h | Js \<Rightarrow> js h)"

text \<open>
  \<^verbatim>\<open>scheduleChangeAndValidate\<close> reads the state variables \<^verbatim>\<open>html\<close>, \<^verbatim>\<open>css\<close>, \<^verbatim>\<open>js\<close> of
  the render in which the running handler was created; they are the argument \<open>closure\<close>.
\<close>

definition scheduleChangeAndValidate ::
  "HistoryState \<Rightarrow> TabKey option \<Rightarrow> session \<Rightarrow> session" where
  "scheduleChangeAndValidate closure tab s =
     (let s1 = s\<lparr>latestRef := closure\<rparr>;
          s2 = flushOnChange False s1;
          s3 = scheduleValidation tab s2
      in pushHistorySnapshot (latestRef s3) False s3)"

text \<open>
  The effect \<^verbatim>\<open>useEffect(() => { latestRef.current = { html, css, js }; }, [html, css, js])\<close>
  runs after a render in which one of the three state variables has changed.
\<close>

definition afterRender :: "session \<Rightarrow> session \<Rightarrow> session" where
  "afterRender old s =
     (if rendered s \<noteq> rendered old then s\<lparr>latestRef := rendered s\<rparr> else s)"

text \<open>
  The \<^verbatim>\<open>onChange\<close> handler of the textarea of tab \<open>tab\<close>, for the new text \<open>v\<close>, followed
  by the render it causes. The state setter takes effect with that render, so the handler
  still sees the state variables of the render before. Only the textarea of the active
  tab is rendered, so the handler that runs is that of \<open>activeTab s\<close>.
\<close>

definition textareaChange :: "TabKey \<Rightarrow> string \<Rightarrow> session \<Rightarrow> session" where
  "textareaChange tab v s =
     (let s1 = s\<lparr>rendered := setBuffer tab v (rendered s)\<rparr>;
          s2 = s1\<lparr>latestRef := setBuffer tab v (latestRef s1)\<rparr>;
          s3 = (if \<not> isComposing s2 then scheduleChangeAndValidate (rendered s) (Some tab) s2
                else s2)
      in afterRender s s3)"

text \<open>The tab buttons, the composition events, the blur of a textarea, the search box.\<close>

definition selectTab :: "TabKey \<Rightarrow> session \<Rightarrow> session" where
  "selectTab tab s = s\<lparr>activeTab := tab\<rparr>"

definition setQuery :: "string \<Rightarrow> session \<Rightarrow> session" where
  "setQuery v s = s\<lparr>query := v\<rparr>"

definition onCompositionStart :: "session \<Rightarrow> session" where
  "onCompositionStart s = s\<lparr>isComposing := True\<rparr>"

definition onCompositionEnd :: "session \<Rightarrow> session" where
  "onCompositionEnd s = s\<lparr>isComposing := False\<rparr>"

definition textareaBlur :: "TabKey \<Rightarrow> session \<Rightarrow> session" where
  "textareaBlur tab s = scheduleValidation (Some tab) (flushOnChange True s)"

text \<open>
  Mounting: the state starts from the project given (or three empty texts) and from the
  two stored lists; the mount effect records the first snapshot with \<^verbatim>\<open>replaceLatest\<close>
  set, which pushes it since the stack is empty.
\<close>

definition emptyProject :: HistoryState where
  "emptyProject = \<lparr>html = [], css = [], js = []\<rparr>"

definition mount :: "HistoryState option \<Rightarrow> Snip list \<Rightarrow> Snip list \<Rightarrow> session" where
  "mount project sf sr =
     (let p = (case project of None \<Rightarrow> emptyProject | Some q \<Rightarrow> q);
          s0 = \<lparr>rendered = p, latestRef = p, activeTab = Html, showSnippet = False,
                showDocs = False, query = [], favs = sf, recent = sr,
                storedFavs = sf, storedRecent = sr, errors = [],
                undoStack = [], redoStack = [], isComposing = False,
                assistKind = KHtml, assistTitle = [], assistBody = [],
                assistResponsive = True, assistIncludeButton = True, assistResult = None,
                onChangeTimer = None, validationTimer = None, clock = 0, delivered = []\<rparr>
      in pushHistorySnapshot (latestRef s0) True s0)"

subsection \<open>The snippet engine\<close>

text \<open>The built-in catalogue.\<close>

definition SNIPPETS :: "Snip list" where
  \<open>SNIPPETS =
    [\<lparr>snip_id = None, label = ''Section (semantic)'',
      snippet =
        ''<section>\<newline>''
        @ ''  <h2>Title</h2>\<newline>''
        @ ''  <p>Description...</p>\<newline>''
        @ ''</section>\<newline>'',
      kind = KHtml, description = Some ''Semantic section block'', tags = None\<rparr>,
     \<lparr>snip_id = None, label = ''Header'',
      snippet =
        ''<header>\<newline>''
        @ ''  <nav><!-- links --></nav>\<newline>''
        @ ''</header>\<newline>'',
      kind = KHtml, description = Some ''Top navigation header'', tags = None\<rparr>,
     \<lparr>snip_id = None, label = ''Footer'',
      snippet =
        ''<footer>\<newline>''
        @ ''  <p>&copy; 2025 MyCompany</p>\<newline>''
        @ ''</footer>\<newline>'',
      kind = KHtml, description = Some ''Simple footer'', tags = None\<rparr>,
     \<lparr>snip_id = None, label = ''Button (accessible)'',
      snippet =
        ''<button class="btn" role="button">Click me</button>\<newline>'',
      kind = KHtml, description = Some ''Accessible button'', tags = None\<rparr>,
     \<lparr>snip_id = None, label = ''Card'',
      snippet =
        ''<article class="card">\<newline>''
        @ ''  <h3>Card title</h3>\<newline>''
        @ ''  <p>Card body</p>\<newline>''
        @ ''</article>\<newline>'',
      kind = KHtml, description = Some ''Basic card layout'', tags = None\<rparr>,
     \<lparr>snip_id = None, label = ''Image'',
      snippet =
        ''<img src="path/to/img.jpg" alt="description" />\<newline>'',
      kind = KHtml, description = Some ''Responsive-ish image'', tags = None\<rparr>,
     \<lparr>snip_id = None, label = ''Flex row center'',
      snippet =
        ''.row-center {\<newline>''
        @ ''  display: flex;\<newline>''
        @ ''  align-items: center;\<newline>''
        @ ''  justify-content: center;\<newline>''
        @ ''}\<newline>'',
      kind = KCss, description = Some ''Basic flex centered row'', tags = None\<rparr>,
     \<lparr>snip_id = None, label = ''Flex column gap'',
      snippet =
        ''.col-gap {\<newline>''
        @ ''  display: flex;\<newline>''
        @ ''  flex-direction: column;\<newline>''
        @ ''  gap: 12px;\<newline>''
        @ ''}\<newline>'',
      kind = KCss, description = Some ''Vertical column with gap'', tags = None\<rparr>,
     \<lparr>snip_id = None, label = ''Responsive grid 3 cols'',
      snippet =
        ''.grid-3 {\<newline>''
        @ ''  display: grid;\<newline>''
        @ ''  grid-template-columns: repeat(3, 1fr);\<newline>''
        @ ''  gap: 16px;\<newline>''
        @ ''}\<newline>''
        @ ''@media (max-width: 768px) {\<newline>''
        @ ''  .grid-3 { grid-template-columns: 1fr; }\<newline>''
        @ ''}\<newline>'',
      kind = KCss, description = Some ''Grid with responsive breakpoint'', tags = None\<rparr>,
     \<lparr>snip_id = None, label = ''CSS variable theme'',
      snippet =
        '':root {\<newline>''
        @ ''  --bg: #fff;\<newline>''
        @ ''  --fg: #111;\<newline>''
        @ ''  --accent: #3b82f6;\<newline>''
        @ ''}\<newline>'',
      kind = KCss, description = Some ''Root theme variables'', tags = None\<rparr>,
     \<lparr>snip_id = None, label = ''Button primary (tailored)'',
      snippet =
        ''.btn-primary {\<newline>''
        @ ''  padding: 10px 14px;\<newline>''
        @ ''  border-radius: 10px;\<newline>''
        @ ''  background: linear-gradient(90deg,#3b82f6,#1e3a8a);\<newline>''
        @ ''  color: #fff;\<newline>''
        @ ''  font-weight: 700;\<newline>''
        @ ''}\<newline>'',
      kind = KCss, description = Some ''Styled primary button'', tags = None\<rparr>,
     \<lparr>snip_id = None, label = ''querySelector + text'',
      snippet =
        ''const el = document.querySelector('.selector');\<newline>''
        @ ''if (el) el.textContent = 'New text';\<newline>'',
      kind = KJs, description = Some ''Find element and update text'', tags = None\<rparr>,
     \<lparr>snip_id = None, label = ''Event listener'',
      snippet =
        ''const btn = document.querySelector('.btn');\<newline>''
        @ ''btn?.addEventListener('click', (e) => {\<newline>''
        @ ''  // handle click\<newline>''
        @ ''});\<newline>'',
      kind = KJs, description = Some ''Add click listener'', tags = None\<rparr>,
     \<lparr>snip_id = None, label = ''Event delegation (list)'',
      snippet =
        ''document.querySelector('.list')?.addEventListener('click', (e) => {\<newline>''
        @ ''  const button = (e.target as HTMLElement).closest('[data-action]');\<newline>''
        @ ''  if (!button) return;\<newline>''
        @ ''  const action = button.getAttribute('data-action');\<newline>''
        @ ''  // handle action\<newline>''
        @ ''});\<newline>'',
      kind = KJs, description = Some ''Delegate click events'', tags = None\<rparr>,
     \<lparr>snip_id = None, label = ''Fetch JSON (async)'',
      snippet =
        ''async function loadJson(url){\<newline>''
        @ ''  const res = await fetch(url);\<newline>''
        @ ''  if (!res.ok) throw new Error('Network error');\<newline>''
        @ ''  return await res.json();\<newline>''
        @ ''}\<newline>'',
      kind = KJs, description = Some ''Fetch helper'', tags = None\<rparr>,
     \<lparr>snip_id = None, label = ''Debounce utility'',
      snippet =
        ''function debounce(fn, ms = 250){\<newline>''
        @ ''  let t;\<newline>''
        @ ''  return (...args) => { clearTimeout(t); t = setTimeout(() => fn(...args), ms); };\<newline>''
        @ ''}\<newline>'',
      kind = KJs, description = Some ''Debounce function'', tags = None\<rparr>,
     \<lparr>snip_id = None, label = ''Basic starter (HTML+CSS+JS)'',
      snippet =
        ''<!doctype html>\<newline>''
        @ ''<html>\<newline>''
        @ ''<head>\<newline>''
        @ ''  <meta charset="utf-8" />\<newline>''
        @ ''  <meta name="viewport" content="width=device-width,initial-scale=1" />\<newline>''
        @ ''  <link rel="stylesheet" href="styles.css">\<newline>''
        @ ''  <title>App</title>\<newline>''
        @ ''</head>\<newline>''
        @ ''<body>\<newline>''
        @ ''  <div id="app"></div>\<newline>''
        @ ''  <script src="app.js"></script>\<newline>''
        @ ''</body>\<newline>''
        @ ''</html>\<newline>'',
      kind = KAll, description = Some ''Starter scaffold'', tags = None\<rparr>]\<close>

definition kindOfTab :: "TabKey \<Rightarrow> SnipKind" where
  "kindOfTab t = (case t of Html \<Rightarrow> KHtml | Css \<Rightarrow> KCss | Js \<Rightarrow> KJs)"

definition tabOfKind :: "SnipKind \<Rightarrow> TabKey" where
  "tabOfKind k = (case k of KHtml \<Rightarrow> Html | KCss \<Rightarrow> Css | KJs \<Rightarrow> Js | KAll \<Rightarrow> Html)"

definition voidTags :: "string list" where
  "voidTags = [''img'', ''input'', ''br'', ''hr'', ''meta'', ''link'']"

text \<open>\<^verbatim>\<open>s.replace(/\n/g, "\n  ")\<close>\<close>

definition indentLines :: "string \<Rightarrow> string" where
  "indentLines s =
     concat (map (\<lambda>c. if c = CHR 0x0A then [CHR 0x0A, CHR '' '', CHR '' ''] else [c]) s)"

text \<open>
  \<^verbatim>\<open>s.replace(new RegExp(p, "gi"), "")\<close> for a pattern \<open>p\<close> of lower-case literal
  characters that is not empty: one pass from the left that skips every match.
\<close>

fun removeAllCI :: "string \<Rightarrow> string \<Rightarrow> string" where
  "removeAllCI p [] = []"
| "removeAllCI p (c # cs) =
     (if prefix p (toLowerCase (c # cs)) then removeAllCI p (drop (length p - 1) cs)
      else c # removeAllCI p cs)"

text \<open>
  \<^verbatim>\<open>s.replace(new RegExp(`<${t}([^>]*)>`, "i"), (m, attrs) => `<${t}${attrs || ""} />`)\<close>:
  the first match is rewritten. A match starts at the leftmost \<^verbatim>\<open><t\<close> (in either case)
  and runs to the next \<^verbatim>\<open>>\<close>; when no \<^verbatim>\<open>>\<close> follows the leftmost \<^verbatim>\<open><t\<close>, none follows a
  later one, and the text stays as it is.
\<close>

fun rewriteOpen :: "string \<Rightarrow> string \<Rightarrow> string" where
  "rewriteOpen t [] = []"
| "rewriteOpen t (c # cs) =
     (if prefix (CHR ''<'' # t) (toLowerCase (c # cs))
      then (let rest = drop (length t) cs
            in if CHR ''>'' \<in> set rest
               then ''<'' @ t @ takeWhile (\<lambda>x. x \<noteq> CHR ''>'') rest @ '' />''
                    @ tl (dropWhile (\<lambda>x. x \<noteq> CHR ''>'') rest)
               else c # cs)
      else c # rewriteOpen t cs)"

definition voidStep :: "string \<Rightarrow> string \<Rightarrow> string" where
  "voidStep t s =
     (let closing = ''</'' @ t @ ''>'';
          s1 = (if includesStr (toLowerCase s) closing then removeAllCI closing s else s)
      in rewriteOpen t s1)"

definition isTagChar :: "char \<Rightarrow> bool" where
  "isTagChar c = (isLowerAZ c \<or> isUpperAZ c \<or> isDigit c \<or> c = CHR ''-'')"

text \<open>The first group of \<^verbatim>\<open>s.match(/^<([a-z0-9-]+)(\s|>)/i)\<close>, when the text matches.\<close>

definition openingTag :: "string \<Rightarrow> string option" where
  "openingTag s =
     (case s of
        [] \<Rightarrow> None
      | c # cs \<Rightarrow>
          if c \<noteq> CHR ''<'' then None
          else (let tag = takeWhile isTagChar cs; rest = dropWhile isTagChar cs
                in if tag = [] then None
                   else (case rest of
                           [] \<Rightarrow> None
                         | d # _ \<Rightarrow> if isSpace d \<or> d = CHR ''>'' then Some tag else None)))"

text \<open>\<^verbatim>\<open>new RegExp(`</${tag}>\\s*$`, "i").test(s)\<close> for a lower-case tag name.\<close>

definition hasClosing :: "string \<Rightarrow> string \<Rightarrow> bool" where
  "hasClosing tag s =
     suffix (''</'' @ tag @ ''>'') (toLowerCase (rev (dropWhile isSpace (rev s))))"

definition normalizeSnippetForBeginners :: "string \<Rightarrow> SnipKind \<Rightarrow> string" where
  \<open>normalizeSnippetForBeginners snip k =
     (if k \<noteq> KHtml then snip
      else (let s = trim snip
            in if \<not> prefix ''<'' (dropWhile isSpace s)
               then ''<div>\<newline>  '' @ indentLines s @ ''\<newline></div>\<newline>''
               else (let s1 = fold voidStep voidTags s;
                         s2 = (case openingTag s1 of
                                 None \<Rightarrow> s1
                               | Some tg \<Rightarrow>
                                   (let tag = toLowerCase tg
                                    in if tag \<in> set voidTags then s1
                                       else if hasClosing tag s1 then s1
                                       else s1 @ ''\<newline></'' @ tag @ ''>\<newline>''))
                     in s2 @ (if endsWith s2 ''\<newline>'' then [] else ''\<newline>''))))\<close>

definition saveFavs :: "Snip list \<Rightarrow> session \<Rightarrow> session" where
  "saveFavs next s = s\<lparr>favs := next, storedFavs := next\<rparr>"

definition saveRecent :: "Snip list \<Rightarrow> session \<Rightarrow> session" where
  "saveRecent next s = s\<lparr>recent := next, storedRecent := take 8 next\<rparr>"

text \<open>
  Only the textarea of the active tab is rendered, so of the three refs \<^verbatim>\<open>htmlRef\<close>,
  \<^verbatim>\<open>cssRef\<close>, \<^verbatim>\<open>jsRef\<close> only that of the active tab holds an element; the other two are
  \<^verbatim>\<open>null\<close>. The element is controlled: its value is the state variable of its tab.
  (While a change of tab is animated the textarea of the tab that was left is still the
  only one mounted; the model describes the session outside these animations.)
\<close>

definition areaRef :: "TabKey \<Rightarrow> session \<Rightarrow> string option" where
  "areaRef tab s = (if activeTab s = tab then Some (getBuffer tab (rendered s)) else None)"

text \<open>
  \<^verbatim>\<open>insertSnippet(snippet, meta, options)\<close>, followed by the render it causes. \<open>newId\<close>
  is what \<^verbatim>\<open>uid()\<close> returns and \<open>sel\<close> the selection (\<^verbatim>\<open>selectionStart\<close>,
  \<^verbatim>\<open>selectionEnd\<close>) of the textarea the function reads. The animation-frame callback
  only places the caret behind the inserted text.
\<close>

definition insertSnippet ::
  "string \<Rightarrow> Snip option \<Rightarrow> bool \<Rightarrow> string \<Rightarrow> nat \<times> nat \<Rightarrow> session \<Rightarrow> session" where
  "insertSnippet snip meta keepOpen newId sel s =
     (let targetKind = (case meta of Some m \<Rightarrow> kind m | None \<Rightarrow> kindOfTab (activeTab s));
          s1 = (if targetKind \<noteq> kindOfTab (activeTab s) \<and> targetKind \<noteq> KAll
                then s\<lparr>activeTab := tabOfKind targetKind\<rparr>
                else if targetKind = KAll then s\<lparr>activeTab := Html\<rparr> else s);
          normalized = normalizeSnippetForBeginners snip targetKind;
          area = (if targetKind = KHtml \<or> targetKind = KAll then areaRef Html s
                  else if targetKind = KCss then areaRef Css s else areaRef Js s);
          finalArea = (case area of Some a \<Rightarrow> Some a | None \<Rightarrow> areaRef (activeTab s) s)
      in case finalArea of
           None \<Rightarrow> s1
         | Some val \<Rightarrow>
             (let before = take (fst sel) val;
                  after = drop (snd sel) val;
                  newVal = before @ normalized @ after;
                  s2 = (if targetKind = KHtml \<or> targetKind = KAll
                        then s1\<lparr>rendered := (rendered s1)\<lparr>html := newVal\<rparr>,
                                latestRef := (latestRef s1)\<lparr>html := newVal\<rparr>\<rparr>
                        else if targetKind = KCss
                        then s1\<lparr>rendered := (rendered s1)\<lparr>css := newVal\<rparr>,
                                latestRef := (latestRef s1)\<lparr>css := newVal\<rparr>\<rparr>
                        else s1\<lparr>rendered := (rendered s1)\<lparr>js := newVal\<rparr>,
                                latestRef := (latestRef s1)\<lparr>js := newVal\<rparr>\<rparr>);
                  s3 = pushHistorySnapshot (latestRef s2) False s2;
                  rItem = \<lparr>snip_id = Some newId,
                           label = (case meta of Some m \<Rightarrow> label m | None \<Rightarrow> ''Generated snippet''),
                           snippet = normalized,
                           kind = (case meta of Some m \<Rightarrow> kind m | None \<Rightarrow> targetKind),
                           description = (case meta of Some m \<Rightarrow> description m | None \<Rightarrow> None),
                           tags = None\<rparr>;
                  merged = rItem # filter (\<lambda>r. snippet r \<noteq> normalized) (recent s);
                  s4 = saveRecent (take 8 merged) s3;
                  s5 = (if \<not> keepOpen then s4\<lparr>showSnippet := False\<rparr> else s4);
                  s6 = s5\<lparr>query := []\<rparr>;
                  s7 = flushOnChange True s6;
                  s8 = scheduleValidation
                         (Some (if targetKind = KAll then Html else tabOfKind targetKind)) s7
              in afterRender s s8))"

definition toggleFav :: "Snip \<Rightarrow> string \<Rightarrow> session \<Rightarrow> session" where
  "toggleFav x newId s =
     (if list_ex (\<lambda>f. snippet f = snippet x) (favs s)
      then saveFavs (filter (\<lambda>f. snippet f \<noteq> snippet x) (favs s)) s
      else saveFavs (take 30 (x\<lparr>snip_id := Some newId\<rparr> # favs s)) s)"

text \<open>The \<^verbatim>\<open>Insert\<close> button of the fill-in assistant and the \<^verbatim>\<open>Clear All\<close> button.\<close>

definition assistantInsertClick :: "string \<Rightarrow> nat \<times> nat \<Rightarrow> session \<Rightarrow> session" where
  "assistantInsertClick newId sel s =
     (case assistResult s of
        None \<Rightarrow> s
      | Some r \<Rightarrow> saveFavs (r # favs s) (insertSnippet (snippet r) (Some r) False newId sel s))"

definition clearAllClick :: "session \<Rightarrow> session" where
  "clearAllClick s = saveRecent [] (saveFavs [] s)"

text \<open>\<^verbatim>\<open>title.toLowerCase().replace(/[^a-z0-9]+/g, '-')\<close>\<close>

fun dashRuns :: "bool \<Rightarrow> string \<Rightarrow> string" where
  "dashRuns inRun [] = []"
| "dashRuns inRun (c # cs) =
     (if isLowerAZ c \<or> isDigit c then c # dashRuns False cs
      else if inRun then dashRuns True cs else CHR ''-'' # dashRuns True cs)"

definition slug :: "string \<Rightarrow> string" where
  "slug title = dashRuns False (toLowerCase title)"

definition kindUpper :: "SnipKind \<Rightarrow> string" where
  "kindUpper k = (case k of KHtml \<Rightarrow> ''HTML'' | KCss \<Rightarrow> ''CSS'' | KJs \<Rightarrow> ''JS'' | KAll \<Rightarrow> ''ALL'')"

definition runAssistantGenerate :: "string \<Rightarrow> session \<Rightarrow> session" where
  \<open>runAssistantGenerate newId s =
     (let title = (if assistTitle s = [] then ''Component'' else assistTitle s);
          body = (if assistBody s = [] then ''Description...'' else assistBody s);
          k = assistKind s;
          generated =
            (case k of
               KHtml \<Rightarrow>
                 ''<section class="'' @ slug title @ ''">\<newline>  <h2>'' @ title
                 @ ''</h2>\<newline>  <p>'' @ body @ ''</p>\<newline>''
                 @ (if assistIncludeButton s then ''  <a class="btn" href="#">Action</a>\<newline>''
                    else [])
                 @ ''</section>\<newline>''
             | KCss \<Rightarrow>
                 ''.'' @ slug title
                 @ '' {\<newline>  padding: 16px;\<newline>  border-radius: 8px;\<newline>''
                 @ ''  background: linear-gradient(90deg,#fff,#f3f4f6);\<newline>}\<newline>''
                 @ (if assistResponsive s
                    then ''@media(max-width:768px){ .'' @ slug title @ '' { padding:12px } }\<newline>''
                    else [])
             | KJs \<Rightarrow>
                 ''const el = document.querySelector('.'' @ slug title @ [CHR 0x27]
                 @ '');\<newline>if (el) el.innerHTML = `<h2>'' @ title @ ''</h2><p>'' @ body
                 @ ''</p>`;\<newline>''
             | KAll \<Rightarrow>
                 ''<!doctype html>\<newline><html>\<newline><head><meta charset="utf-8">''
                 @ ''<meta name="viewport" content="width=device-width,initial-scale=1"></head>''
                 @ ''\<newline><body>\<newline><section>\<newline>  <h2>'' @ title
                 @ ''</h2>\<newline>  <p>'' @ body
                 @ ''</p>\<newline></section>\<newline></body>\<newline></html>\<newline>'');
          normalized = normalizeSnippetForBeginners generated k
      in s\<lparr>assistResult :=
            Some \<lparr>snip_id = Some newId, label = kindUpper k @ '': '' @ title,
                  snippet = normalized, kind = k,
                  description = Some ''Generated by Smart Assistant'', tags = None\<rparr>\<rparr>)\<close>

subsection \<open>Snippet search\<close>

definition favorited :: "Snip list \<Rightarrow> Snip \<Rightarrow> bool" where
  "favorited fv x = list_ex (\<lambda>f. snippet f = snippet x) fv"

definition haystack :: "Snip \<Rightarrow> string" where
  "haystack x =
     toLowerCase (label x @ '' '' @ (case description x of None \<Rightarrow> [] | Some d \<Rightarrow> d) @ '' ''
       @ snippet x @ '' '' @ join '' '' (case tags x of None \<Rightarrow> [] | Some ts \<Rightarrow> ts))"

definition score :: "Snip list \<Rightarrow> TabKey \<Rightarrow> string \<Rightarrow> Snip \<Rightarrow> int" where
  "score fv primaryKind q x =
     (if kind x = kindOfTab primaryKind then 50 else 0)
     + (if kind x = KAll then 30 else 0)
     + (if favorited fv x then 10 else 0)
     + (if q = [] then 0
        else (if startsWith (toLowerCase (label x)) q then 20 else 0)
             + (if includesStr (haystack x) q then 10 else 0))"

text \<open>The last filter of \<^verbatim>\<open>getFilteredSnippets\<close>, with its set of bodies seen so far.\<close>

fun dedupe :: "string set \<Rightarrow> Snip list \<Rightarrow> Snip list" where
  "dedupe seen [] = []"
| "dedupe seen (f # fs) =
     (if snippet f \<in> seen then dedupe seen fs else f # dedupe (insert (snippet f) seen) fs)"

text \<open>
  \<^verbatim>\<open>Array.prototype.sort\<close> is stable; with the comparator \<^verbatim>\<open>(a, b) => b.score - a.score\<close>
  it is the stable sort by descending score, here the library's stable insertion sort on
  the negated score.
\<close>

definition getFilteredSnippets :: "session \<Rightarrow> Snip list" where
  "getFilteredSnippets s =
     (let q = toLowerCase (trim (query s));
          primaryKind = activeTab s;
          pool = SNIPPETS @ favs s;
          scored = map (\<lambda>x. (x, score (favs s) primaryKind q x)) pool;
          filtered = map fst (sort_key (\<lambda>x. - snd x) (filter (\<lambda>x. q = [] \<or> snd x > 5) scored))
      in dedupe {} filtered)"

text \<open>
  The query as \<^verbatim>\<open>getFilteredSnippets\<close> uses it, the score it gives an entry, and its
  filter.
\<close>

definition searchQuery :: "session \<Rightarrow> string" where
  "searchQuery s = toLowerCase (trim (query s))"

definition searchScore :: "session \<Rightarrow> Snip \<Rightarrow> int" where
  "searchScore s x = score (favs s) (activeTab s) (searchQuery s) x"

definition passes :: "session \<Rightarrow> Snip \<Rightarrow> bool" where
  "passes s x = (searchQuery s = [] \<or> searchScore s x > 5)"

text \<open>
  Deduplication by body, said with positions: an entry stays when no entry before it has
  the same body.
\<close>

definition firstByBody :: "Snip list \<Rightarrow> Snip list" where
  "firstByBody xs =
     nths xs {i. i < length xs \<and> (\<forall>j<i. snippet (xs ! j) \<noteq> snippet (xs ! i))}"

text \<open>
  The search as claim C5 words it: the label is tested against the lower-cased query as
  it stands, the texts of an entry are put together as they are, and the query counts
  as empty only when it has no character.
\<close>

definition claimScore :: "Snip list \<Rightarrow> TabKey \<Rightarrow> string \<Rightarrow> Snip \<Rightarrow> int" where
  "claimScore fv tab qry x =
     (if kind x = kindOfTab tab then 50 else 0)
     + (if kind x = KAll then 30 else 0)
     + (if favorited fv x then 10 else 0)
     + (if startsWith (label x) (toLowerCase qry) then 20 else 0)
     + (if includesStr
            (label x @ (case description x of None \<Rightarrow> [] | Some d \<Rightarrow> d) @ snippet x
              @ concat (case tags x of None \<Rightarrow> [] | Some ts \<Rightarrow> ts))
            (toLowerCase qry)
        then 10 else 0)"

definition claimSearch :: "Snip list \<Rightarrow> Snip list \<Rightarrow> TabKey \<Rightarrow> string \<Rightarrow> Snip list" where
  "claimSearch pool fv tab qry =
     dedupe {} (sort_key (\<lambda>x. - claimScore fv tab qry x)
                  (filter (\<lambda>x. qry = [] \<or> claimScore fv tab qry x > 5) pool))"

subsection \<open>Sequences of operations and example states\<close>

text \<open>A sequence of \<^verbatim>\<open>pushHistorySnapshot\<close> calls, each with its \<^verbatim>\<open>replaceLatest\<close> flag.\<close>

definition recordAll :: "(HistoryState \<times> bool) list \<Rightarrow> session \<Rightarrow> session" where
  "recordAll ops s = fold (\<lambda>(snap, replaceLatest). pushHistorySnapshot snap replaceLatest) ops s"

definition snapA :: HistoryState where
  "snapA = \<lparr>html = ''<p>a</p>'', css = ''p{}'', js = ''let a;''\<rparr>"

definition snapB :: HistoryState where
  "snapB = \<lparr>html = ''<p>b</p>'', css = ''p{color:red}'', js = ''let b;''\<rparr>"

definition freshSession :: session where
  "freshSession = mount None [] []"

definition fullHistory :: session where
  "fullHistory = freshSession\<lparr>undoStack := replicate 60 emptyProject\<rparr>"

text \<open>A browser that accepts every text.\<close>

definition okDom :: domParser where
  "okDom = (\<lambda>_. NoParserError)"

definition okCtor :: functionCtor where
  "okCtor = (\<lambda>_. Constructed)"

text \<open>
  A burst of keystrokes in the textarea of one tab: each event is the quiet time before it
  and the text of the textarea after it.
\<close>

definition keystrokes ::
  "domParser \<Rightarrow> functionCtor \<Rightarrow> TabKey \<Rightarrow> (nat \<times> string) list \<Rightarrow> session \<Rightarrow> session"
  where
  "keystrokes parse construct tab evs s =
     fold (\<lambda>(d, v) s1. textareaChange tab v (advance parse construct d s1)) evs s"

definition burst :: "(nat \<times> string) list" where
  "burst = [(0, ''a''), (100, ''ab''), (100, ''abc'')]"

subsection \<open>Reading the diagnostics\<close>

definition warnings :: "Lint list \<Rightarrow> Lint list" where
  "warnings ms = filter (\<lambda>m. level m = Warning) ms"

text \<open>The property of a text that claim C6 names: two capital letters in a row somewhere.\<close>

fun hasUpperRun2 :: "string \<Rightarrow> bool" where
  "hasUpperRun2 (a # b # cs) = ((isUpperAZ a \<and> isUpperAZ b) \<or> hasUpperRun2 (b # cs))"
| "hasUpperRun2 _ = False"

text \<open>
  A whole word of capital letters: the text is \<open>u @ w @ v\<close> where \<open>w\<close> is not empty and
  consists of capital letters, \<open>u\<close> does not end and \<open>v\<close> does not begin with a word
  character. \<open>upperWord pw\<close> is the same for the rest of a text whose last character
  read was a word character (\<open>pw\<close>) or not.
\<close>

definition upperWord :: "bool \<Rightarrow> string \<Rightarrow> bool" where
  "upperWord pw s = (\<exists>u w v. s = u @ w @ v \<and> w \<noteq> [] \<and> list_all isUpperAZ w
      \<and> (if u = [] then \<not> pw else \<not> isWordChar (last u))
      \<and> (v = [] \<or> \<not> isWordChar (hd v)))"

definition upperOnlyWord :: "string \<Rightarrow> bool" where
  "upperOnlyWord s = (\<exists>u w v. s = u @ w @ v \<and> w \<noteq> [] \<and> list_all isUpperAZ w
      \<and> (u = [] \<or> \<not> isWordChar (last u))
      \<and> (v = [] \<or> \<not> isWordChar (hd v)))"

text \<open>
  A session on the style tab, a script snippet, and a session in which the assistant has
  generated a style snippet from its default title.
\<close>

definition styleTabSession :: session where
  "styleTabSession =
     selectTab Css (mount (Some \<lparr>html = ''<p></p>'', css = ''a{}'', js = ''let x;''\<rparr>) [] [])"

definition scriptSnip :: Snip where
  "scriptSnip = \<lparr>snip_id = None, label = ''Call'', snippet = ''X();'', kind = KJs,
     description = None, tags = None\<rparr>"

definition generatedSnip :: Snip where
  \<open>generatedSnip = \<lparr>snip_id = Some ''abc1234'', label = ''CSS: Component'',
     snippet = ''.component {\<newline>  padding: 16px;\<newline>  border-radius: 8px;\<newline>''
       @ ''  background: linear-gradient(90deg,#fff,#f3f4f6);\<newline>}\<newline>''
       @ ''@media(max-width:768px){ .component { padding:12px } }\<newline>'',
     kind = KCss, description = Some ''Generated by Smart Assistant'', tags = None\<rparr>\<close>

definition assistantSession :: session where
  "assistantSession = runAssistantGenerate ''abc1234'' (freshSession\<lparr>assistKind := KCss\<rparr>)"

definition flexSession :: session where
  "flexSession = setQuery ''flex'' freshSession"

section \<open>The question search panel (src/components/SearchPanel.tsx)\<close>

text \<open>
  \<^verbatim>\<open>doSearch\<close> is an asynchronous function with three \<^verbatim>\<open>await\<close>s. A call that has
  started and not finished is a request in flight: its query and the \<^verbatim>\<open>await\<close> it is
  suspended at. The model numbers the calls in the order they start, only to tell them
  apart; the source has no such number. Each \<^verbatim>\<open>await\<close> resumes through an event that
  carries what the awaited promise settled to.
\<close>

record SEOwner =
  display_name :: "string option"
  owner_link :: "string option"
  user_id :: "int option"

record SEQuestion =
  question_id :: int
  se_title :: string
  se_link :: string
  is_answered :: bool
  se_score :: int
  creation_date :: int
  se_tags :: "string list"
  se_owner :: "SEOwner option"
  se_body :: "string option"

record cacheEntry =
  ce_query :: string
  ce_timestamp :: int
  ce_items :: "SEQuestion list"

datatype stage = AwaitCache | AwaitSearch | AwaitPut

text \<open>A promise settles to a value or rejects.\<close>

datatype 'a settled = Rejected | Fulfilled 'a

record panel =
  panel_q :: string
  results :: "SEQuestion list"
  loading :: bool
  cacheHit :: bool
  debounceRef :: "(nat \<times> string) option"
  panel_clock :: nat
  inflight :: "nat \<rightharpoonup> string \<times> stage"
  started :: nat

definition initialPanel :: panel where
  "initialPanel = \<lparr>panel_q = [], results = [], loading = False, cacheHit = False,
     debounceRef = None, panel_clock = 0, inflight = Map.empty, started = 0\<rparr>"

definition WEEK_MS :: int where
  "WEEK_MS = 1000 * 60 * 60 * 24 * 7"

text \<open>The synchronous start of \<^verbatim>\<open>doSearch(query)\<close>, up to its first \<^verbatim>\<open>await\<close>.\<close>

definition doSearch :: "string \<Rightarrow> panel \<Rightarrow> panel" where
  "doSearch qstr p =
     (if trim qstr = [] then p\<lparr>results := []\<rparr>
      else p\<lparr>loading := True,
             inflight := (inflight p)(started p \<mapsto> (qstr, AwaitCache)),
             started := started p + 1\<rparr>)"

text \<open>
  \<^verbatim>\<open>getCachedSearch\<close> settles for call \<open>i\<close>, at time \<open>now\<close> (\<^verbatim>\<open>Date.now()\<close>): a fresh
  entry is shown and the call returns, otherwise the call goes on to the remote search;
  a rejection goes to \<^verbatim>\<open>catch\<close> and \<^verbatim>\<open>finally\<close>.
\<close>

definition cacheSettled :: "nat \<Rightarrow> cacheEntry option settled \<Rightarrow> int \<Rightarrow> panel \<Rightarrow> panel" where
  "cacheSettled i outcome now p =
     (case inflight p i of
        Some (qstr, AwaitCache) \<Rightarrow>
          (case outcome of
             Rejected \<Rightarrow> p\<lparr>loading := False, inflight := (inflight p)(i := None)\<rparr>
           | Fulfilled cached \<Rightarrow>
               (case cached of
                  Some c \<Rightarrow>
                    if now - ce_timestamp c < WEEK_MS
                    then p\<lparr>results := ce_items c, cacheHit := True, loading := False,
                           inflight := (inflight p)(i := None)\<rparr>
                    else p\<lparr>inflight := (inflight p)(i \<mapsto> (qstr, AwaitSearch))\<rparr>
                | None \<Rightarrow> p\<lparr>inflight := (inflight p)(i \<mapsto> (qstr, AwaitSearch))\<rparr>))
      | _ \<Rightarrow> p)"

text \<open>
  \<^verbatim>\<open>searchQuestions\<close> settles for call \<open>i\<close>; the payload is \<^verbatim>\<open>data.items\<close>, which may be
  missing. The call shows the items and goes on to write the cache.
\<close>

definition searchSettled :: "nat \<Rightarrow> SEQuestion list option settled \<Rightarrow> panel \<Rightarrow> panel" where
  "searchSettled i outcome p =
     (case inflight p i of
        Some (qstr, AwaitSearch) \<Rightarrow>
          (case outcome of
             Rejected \<Rightarrow> p\<lparr>loading := False, inflight := (inflight p)(i := None)\<rparr>
           | Fulfilled items \<Rightarrow>
               p\<lparr>results := (case items of None \<Rightarrow> [] | Some xs \<Rightarrow> xs), cacheHit := False,
                 inflight := (inflight p)(i \<mapsto> (qstr, AwaitPut))\<rparr>)
      | _ \<Rightarrow> p)"

text \<open>\<^verbatim>\<open>setCachedSearch\<close> settles for call \<open>i\<close>, either way the call ends in \<^verbatim>\<open>finally\<close>.\<close>

definition putSettled :: "nat \<Rightarrow> panel \<Rightarrow> panel" where
  "putSettled i p =
     (case inflight p i of
        Some (qstr, AwaitPut) \<Rightarrow> p\<lparr>loading := False, inflight := (inflight p)(i := None)\<rparr>
      | _ \<Rightarrow> p)"

text \<open>Typing in the search box arms a 500 ms timer whose callback starts the search.\<close>

definition panelChange :: "string \<Rightarrow> panel \<Rightarrow> panel" where
  "panelChange v p = p\<lparr>panel_q := v, debounceRef := Some (panel_clock p + 500, v)\<rparr>"

definition panelAdvance :: "nat \<Rightarrow> panel \<Rightarrow> panel" where
  "panelAdvance d p =
     (let t = panel_clock p + d;
          p1 = (case debounceRef p of
                  Some (due, v) \<Rightarrow> if due \<le> t then doSearch v (p\<lparr>debounceRef := None\<rparr>) else p
                | None \<Rightarrow> p)
      in p1\<lparr>panel_clock := t\<rparr>)"

definition searchButton :: "panel \<Rightarrow> panel" where
  "searchButton p = doSearch (panel_q p) p"

text \<open>Two questions, and the race of claim C9: the older call's response arrives last.\<close>

definition questionA :: SEQuestion where
  "questionA = \<lparr>question_id = 1, se_title = ''How to center a div'', se_link = ''https://so/1'',
     is_answered = True, se_score = 10, creation_date = 1700000000, se_tags = [''css''],
     se_owner = None, se_body = None\<rparr>"

definition questionB :: SEQuestion where
  "questionB = \<lparr>question_id = 2, se_title = ''How to debounce'', se_link = ''https://so/2'',
     is_answered = False, se_score = 3, creation_date = 1700000001, se_tags = [''javascript''],
     se_owner = None, se_body = None\<rparr>"

definition staleRace ::
  "string \<Rightarrow> string \<Rightarrow> SEQuestion list \<Rightarrow> SEQuestion list \<Rightarrow> int \<Rightarrow> panel \<Rightarrow> panel" where
  "staleRace older newer olderItems newerItems now p =
     (let p1 = doSearch older p;
          p2 = doSearch newer p1;
          p3 = cacheSettled (started p) (Fulfilled None) now p2;
          p4 = cacheSettled (started p + 1) (Fulfilled None) now p3;
          p5 = searchSettled (started p + 1) (Fulfilled (Some newerItems)) p4
      in searchSettled (started p) (Fulfilled (Some olderItems)) p5)"

section \<open>Properties\<close>

subsection \<open>History\<close>

lemma undo_fields:
  "2 \<le> length (undoStack s) \<Longrightarrow>
   undo s = s\<lparr>undoStack := butlast (undoStack s), redoStack := redoStack s @ [last (undoStack s)],
     rendered := last (butlast (undoStack s)), latestRef := last (butlast (undoStack s)),
     onChangeTimer := None, delivered := delivered s @ [last (butlast (undoStack s))]\<rparr>"
  by (simp add: undo_def Let_def applyHistoryState_def flushOnChange_def)

text \<open>
  C1. When the undo stack holds at least two entries, \<open>undo\<close> followed by \<open>redo\<close> gives
  back both stacks as they were and makes the snapshot that was on top the current
  state (state variables and holder); the rest of the session is as before except that
  a pending propagation timer is cancelled and the sink has received the two states
  applied. With at most one entry \<open>undo\<close> changes nothing at all.
\<close>

theorem undo_redo_inverse:
  "(2 \<le> length (undoStack s) \<longrightarrow>
      redo (undo s) =
        s\<lparr>rendered := last (undoStack s), latestRef := last (undoStack s),
          onChangeTimer := None,
          delivered := delivered s @ [last (butlast (undoStack s)), last (undoStack s)]\<rparr>
      \<and> undoStack (redo (undo s)) = undoStack s
      \<and> redoStack (redo (undo s)) = redoStack s)
   \<and> (length (undoStack s) \<le> 1 \<longrightarrow> undo s = s)"
proof (intro conjI impI)
  assume len: "2 \<le> length (undoStack s)"
  then have ne: "undoStack s \<noteq> []" by auto
  show eq: "redo (undo s) =
        s\<lparr>rendered := last (undoStack s), latestRef := last (undoStack s),
          onChangeTimer := None,
          delivered := delivered s @ [last (butlast (undoStack s)), last (undoStack s)]\<rparr>"
    using ne
    by (simp add: undo_fields [OF len] redo_def Let_def applyHistoryState_def flushOnChange_def)
  show "undoStack (redo (undo s)) = undoStack s" by (simp add: eq)
  show "redoStack (redo (undo s)) = redoStack s" by (simp add: eq)
next
  assume "length (undoStack s) \<le> 1"
  then show "undo s = s" by (simp add: undo_def)
qed

lemma undoStack_fresh: "undoStack freshSession = [emptyProject]"
  by (simp add: freshSession_def mount_def pushHistorySnapshot_def Let_def HISTORY_LIMIT_def)

lemma undoStack_fresh_push:
  "undoStack (pushHistorySnapshot snapA False freshSession) = [emptyProject, snapA]"
  by (simp add: pushHistorySnapshot_def Let_def undoStack_fresh HISTORY_LIMIT_def)

theorem undo_redo_inverse_witness:
  "2 \<le> length (undoStack (pushHistorySnapshot snapA False freshSession))
   \<and> undoStack (redo (undo (pushHistorySnapshot snapA False freshSession)))
       = [emptyProject, snapA]
   \<and> redoStack (redo (undo (pushHistorySnapshot snapA False freshSession)))
       = redoStack (pushHistorySnapshot snapA False freshSession)
   \<and> rendered (redo (undo (pushHistorySnapshot snapA False freshSession))) = snapA
   \<and> length (undoStack freshSession) \<le> 1
   \<and> undo freshSession = freshSession"
proof -
  have two: "2 \<le> length (undoStack (pushHistorySnapshot snapA False freshSession))"
    by (simp add: undoStack_fresh_push)
  have one: "length (undoStack freshSession) \<le> 1"
    by (simp add: undoStack_fresh)
  from undo_redo_inverse [of "pushHistorySnapshot snapA False freshSession"] two
  have a: "redo (undo (pushHistorySnapshot snapA False freshSession)) =
        (pushHistorySnapshot snapA False freshSession)
          \<lparr>rendered := last (undoStack (pushHistorySnapshot snapA False freshSession)),
           latestRef := last (undoStack (pushHistorySnapshot snapA False freshSession)),
           onChangeTimer := None,
           delivered := delivered (pushHistorySnapshot snapA False freshSession)
             @ [last (butlast (undoStack (pushHistorySnapshot snapA False freshSession))),
                last (undoStack (pushHistorySnapshot snapA False freshSession))]\<rparr>"
    by blast
  from undo_redo_inverse [of freshSession] one
  have b: "undo freshSession = freshSession" by blast
  show ?thesis using two one b by (simp add: a undoStack_fresh_push)
qed

lemma push_len:
  "length (undoStack s) \<le> 60 \<Longrightarrow> length (undoStack (pushHistorySnapshot x r s)) \<le> 60"
  by (auto simp: pushHistorySnapshot_def Let_def HISTORY_LIMIT_def)

lemma recordAll_len:
  "length (undoStack s) \<le> 60 \<Longrightarrow> length (undoStack (recordAll ops s)) \<le> 60"
proof (induction ops arbitrary: s)
  case Nil
  then show ?case by (simp add: recordAll_def)
next
  case (Cons a ops)
  obtain x r where a: "a = (x, r)" by (cases a)
  have "recordAll (a # ops) s = recordAll ops (pushHistorySnapshot x r s)"
    by (simp add: recordAll_def a)
  then show ?case using Cons.IH [OF push_len [OF Cons.prems]] by simp
qed

lemma drop_Suc_nonempty: "xs \<noteq> [] \<Longrightarrow> drop (Suc n) (xs @ ys) = drop n (tl xs @ ys)"
  by (cases xs) simp_all

lemma push_at_capacity:
  assumes "length (undoStack s) = 60"
  shows "undoStack (pushHistorySnapshot x False s) = tl (undoStack s) @ [x]"
proof -
  from assms have ne: "undoStack s \<noteq> []" by auto
  have "undoStack (pushHistorySnapshot x False s) = tl (undoStack s @ [x])"
    using assms by (simp add: pushHistorySnapshot_def Let_def HISTORY_LIMIT_def)
  then show ?thesis using ne by simp
qed

lemma push_below_capacity:
  "length (undoStack s) < 60 \<Longrightarrow> undoStack (pushHistorySnapshot x False s) = undoStack s @ [x]"
  by (simp add: pushHistorySnapshot_def Let_def HISTORY_LIMIT_def)

lemma pushes_window:
  "length (undoStack s) \<le> 60 \<Longrightarrow>
   undoStack (recordAll (map (\<lambda>x. (x, False)) xs) s) =
   drop (length (undoStack s @ xs) - 60) (undoStack s @ xs)"
proof (induction xs arbitrary: s)
  case Nil
  then show ?case by (simp add: recordAll_def)
next
  case (Cons x xs)
  let ?s1 = "pushHistorySnapshot x False s"
  have l1: "length (undoStack ?s1) \<le> 60" by (rule push_len [OF Cons.prems])
  have r: "recordAll (map (\<lambda>x. (x, False)) (x # xs)) s
           = recordAll (map (\<lambda>x. (x, False)) xs) ?s1"
    by (simp add: recordAll_def)
  show ?case
  proof (cases "length (undoStack s) = 60")
    case True
    then have ne: "undoStack s \<noteq> []" by auto
    have w1: "undoStack ?s1 = tl (undoStack s) @ [x]"
      by (rule push_at_capacity [OF True])
    have "drop (length (undoStack s @ x # xs) - 60) (undoStack s @ x # xs)
          = drop (Suc (length xs)) (undoStack s @ x # xs)"
      using True by simp
    also have "\<dots> = drop (length xs) (tl (undoStack s) @ x # xs)"
      using ne by (rule drop_Suc_nonempty)
    finally show ?thesis unfolding r Cons.IH [OF l1] w1 using True by simp
  next
    case False
    with Cons.prems have lt: "length (undoStack s) < 60" by simp
    have w1: "undoStack ?s1 = undoStack s @ [x]" by (rule push_below_capacity [OF lt])
    show ?thesis unfolding r Cons.IH [OF l1] w1 by simp
  qed
qed

text \<open>
  C3. From a stack of at most 60 snapshots (the stack after mounting holds one), every
  sequence of record operations, replacing or not, leaves at most 60; a push onto a full
  stack drops the oldest entry and appends the new one; and after a sequence of pushes
  the stack holds the last 60 of the snapshots it held or was given, in their order.
\<close>

theorem history_capacity:
  assumes "length (undoStack s) \<le> 60"
  shows "length (undoStack (recordAll ops s)) \<le> 60
    \<and> (length (undoStack s) = 60 \<longrightarrow>
         undoStack (pushHistorySnapshot x False s) = tl (undoStack s) @ [x])
    \<and> undoStack (recordAll (map (\<lambda>x. (x, False)) xs) s)
        = drop (length (undoStack s @ xs) - 60) (undoStack s @ xs)"
  using assms recordAll_len [OF assms] push_at_capacity pushes_window [OF assms]
  by blast

theorem history_capacity_witness:
  "length (undoStack fullHistory) \<le> 60
   \<and> length (undoStack fullHistory) = 60
   \<and> length (undoStack (recordAll [(snapA, False), (snapB, True)] fullHistory)) \<le> 60
   \<and> undoStack (pushHistorySnapshot snapA False fullHistory)
       = replicate 59 emptyProject @ [snapA]
   \<and> undoStack (recordAll (map (\<lambda>x. (x, False)) [snapA, snapB]) fullHistory)
       = replicate 58 emptyProject @ [snapA, snapB]"
proof -
  have u: "undoStack fullHistory = replicate 60 emptyProject"
    by (simp add: fullHistory_def)
  have l: "length (undoStack fullHistory) \<le> 60" by (simp add: u)
  have t: "tl (replicate 60 emptyProject) = replicate 59 emptyProject"
    by (simp add: tl_replicate)
  have d: "drop 2 (replicate 60 emptyProject) = replicate 58 emptyProject"
    by simp
  show ?thesis
    using history_capacity [OF l, of "[(snapA, False), (snapB, True)]" snapA "[snapA, snapB]"]
    by (simp add: u t d)
qed

subsection \<open>Propagation\<close>

lemma push_other [simp]:
  "clock (pushHistorySnapshot x r s) = clock s"
  "delivered (pushHistorySnapshot x r s) = delivered s"
  "latestRef (pushHistorySnapshot x r s) = latestRef s"
  "onChangeTimer (pushHistorySnapshot x r s) = onChangeTimer s"
  "validationTimer (pushHistorySnapshot x r s) = validationTimer s"
  "isComposing (pushHistorySnapshot x r s) = isComposing s"
  "rendered (pushHistorySnapshot x r s) = rendered s"
  by (simp_all add: pushHistorySnapshot_def Let_def)

lemma sched_fields:
  "scheduleChangeAndValidate A tb s =
     (pushHistorySnapshot A False s)\<lparr>latestRef := A, onChangeTimer := Some (clock s + 400),
        validationTimer := Some (clock s + 600, tb)\<rparr>"
  by (simp add: scheduleChangeAndValidate_def Let_def flushOnChange_def scheduleValidation_def
      pushHistorySnapshot_def)

lemma sched_debounce:
  assumes "d < 400"
  shows "delivered (advance P J e
            (scheduleChangeAndValidate B t2
               (advance P J d (scheduleChangeAndValidate A t1 s))))
         = (if 400 \<le> e then delivered s @ [B] else delivered s)"
proof -
  let ?s1 = "scheduleChangeAndValidate A t1 s"
  have a: "advance P J d ?s1 = ?s1\<lparr>clock := clock s + d\<rparr>"
    using assms by (simp add: sched_fields advance_def Let_def)
  let ?s3 = "scheduleChangeAndValidate B t2 (?s1\<lparr>clock := clock s + d\<rparr>)"
  have f: "latestRef ?s3 = B" "onChangeTimer ?s3 = Some (clock s + d + 400)"
     "validationTimer ?s3 = Some (clock s + d + 600, t2)" "clock ?s3 = clock s + d"
     "delivered ?s3 = delivered s"
    by (simp_all add: sched_fields)
  show ?thesis unfolding a
    by (simp add: advance_def Let_def f fireOnChange_def runValidation_def)
qed

lemma textareaChange_fields:
  assumes "\<not> isComposing s"
  shows "textareaChange tab v s =
     (pushHistorySnapshot (rendered s) False s)\<lparr>rendered := setBuffer tab v (rendered s),
        latestRef := setBuffer tab v (rendered s),
        onChangeTimer := Some (clock s + 400),
        validationTimer := Some (clock s + 600, Some tab)\<rparr>"
  using assms
  by (simp add: textareaChange_def Let_def afterRender_def sched_fields pushHistorySnapshot_def)

lemma typing_debounce:
  assumes "\<not> isComposing s" and "d < 400"
  shows "delivered (advance P J e (textareaChange t2 v2 (advance P J d (textareaChange t1 v1 s))))
         = (if 400 \<le> e
            then delivered s @ [setBuffer t2 v2 (setBuffer t1 v1 (rendered s))]
            else delivered s)"
proof -
  let ?s1 = "textareaChange t1 v1 s"
  have f1: "onChangeTimer ?s1 = Some (clock s + 400)"
    "validationTimer ?s1 = Some (clock s + 600, Some t1)" "clock ?s1 = clock s"
    "delivered ?s1 = delivered s" "rendered ?s1 = setBuffer t1 v1 (rendered s)"
    "isComposing ?s1 = isComposing s"
    by (simp_all add: textareaChange_fields [OF assms(1)])
  have a: "advance P J d ?s1 = ?s1\<lparr>clock := clock s + d\<rparr>"
    using assms(2) by (simp add: advance_def Let_def f1)
  let ?s2 = "?s1\<lparr>clock := clock s + d\<rparr>"
  have nc: "\<not> isComposing ?s2" using assms(1) f1 by simp
  let ?s3 = "textareaChange t2 v2 ?s2"
  have f3: "onChangeTimer ?s3 = Some (clock s + d + 400)"
    "validationTimer ?s3 = Some (clock s + d + 600, Some t2)" "clock ?s3 = clock s + d"
    "delivered ?s3 = delivered s"
    "latestRef ?s3 = setBuffer t2 v2 (setBuffer t1 v1 (rendered s))"
    by (simp_all add: textareaChange_fields [OF nc] f1)
  show ?thesis unfolding a
    by (simp add: advance_def Let_def f3 fireOnChange_def runValidation_def)
qed

text \<open>
  C4. The debounced path of the channel is \<^verbatim>\<open>scheduleChangeAndValidate\<close>: it puts a
  snapshot into the holder and arms the 400 ms timer. When it runs with \<open>A\<close> and, less than
  400 ms later, with \<open>B\<close>, the sink receives nothing until 400 ms after the second call and
  then exactly one call, with \<open>B\<close>. The same holds of two keystrokes less than 400 ms
  apart outside a composition: the one call carries the buffers as they are after the
  second keystroke.
\<close>

theorem debounce_delivers_last:
  assumes "d < 400"
  shows "delivered (advance P J e
            (scheduleChangeAndValidate B t2
               (advance P J d (scheduleChangeAndValidate A t1 s))))
         = (if 400 \<le> e then delivered s @ [B] else delivered s)
    \<and> (\<not> isComposing s \<longrightarrow>
         delivered (advance P J e
            (textareaChange k2 v2 (advance P J d (textareaChange k1 v1 s))))
         = (if 400 \<le> e
            then delivered s @ [setBuffer k2 v2 (setBuffer k1 v1 (rendered s))]
            else delivered s))"
  using sched_debounce [OF assms] typing_debounce [OF _ assms] by simp

lemma delivered_fresh: "delivered freshSession = []"
  by (simp add: freshSession_def mount_def Let_def pushHistorySnapshot_def)

lemma rendered_fresh: "rendered freshSession = emptyProject"
  by (simp add: freshSession_def mount_def Let_def pushHistorySnapshot_def)

lemma fresh_not_composing: "\<not> isComposing freshSession"
  by (simp add: freshSession_def mount_def Let_def)

theorem debounce_delivers_last_witness:
  "(399 :: nat) < 400 \<and> \<not> isComposing freshSession
   \<and> delivered (advance okDom okCtor 400
        (scheduleChangeAndValidate snapB (Some Html)
           (advance okDom okCtor 399
              (scheduleChangeAndValidate snapA (Some Html) freshSession)))) = [snapB]
   \<and> delivered (advance okDom okCtor 399
        (scheduleChangeAndValidate snapB (Some Html)
           (advance okDom okCtor 399
              (scheduleChangeAndValidate snapA (Some Html) freshSession)))) = []
   \<and> delivered (advance okDom okCtor 400
        (textareaChange Html ''ab'' (advance okDom okCtor 399
           (textareaChange Html ''a'' freshSession))))
       = [\<lparr>html = ''ab'', css = [], js = []\<rparr>]"
proof -
  have h: "(399 :: nat) < 400" by simp
  show ?thesis
    using debounce_delivers_last [OF h, of okDom okCtor 400 snapB "Some Html" snapA
        "Some Html" freshSession Html "''ab''" Html "''a''"]
      debounce_delivers_last [OF h, of okDom okCtor 399 snapB "Some Html" snapA
        "Some Html" freshSession Html "''ab''" Html "''a''"]
      fresh_not_composing
    by (simp add: delivered_fresh rendered_fresh setBuffer_def emptyProject_def)
qed

subsection \<open>Typing and history\<close>

lemma advance_keeps [simp]:
  "undoStack (advance P J d s) = undoStack s"
  "redoStack (advance P J d s) = redoStack s"
  "isComposing (advance P J d s) = isComposing s"
  "rendered (advance P J d s) = rendered s"
  by (simp_all add: advance_def Let_def fireOnChange_def runValidation_def
      split: option.splits prod.splits)

lemma textareaChange_isComposing [simp]:
  "isComposing (textareaChange tab v s) = isComposing s"
  by (simp add: textareaChange_def Let_def afterRender_def sched_fields)

lemma textareaChange_undoStack:
  "\<not> isComposing s \<Longrightarrow>
   undoStack (textareaChange tab v s) = undoStack (pushHistorySnapshot (rendered s) False s)"
  by (simp add: textareaChange_def Let_def afterRender_def sched_fields pushHistorySnapshot_def)

text \<open>During a composition a change of the text records nothing in the history.\<close>

lemma textareaChange_composing:
  "isComposing s \<Longrightarrow>
   undoStack (textareaChange tab v s) = undoStack s
   \<and> redoStack (textareaChange tab v s) = redoStack s
   \<and> onChangeTimer (textareaChange tab v s) = onChangeTimer s
   \<and> validationTimer (textareaChange tab v s) = validationTimer s"
  by (simp add: textareaChange_def Let_def afterRender_def)

lemma push_length:
  "length (undoStack s) \<le> 60 \<Longrightarrow>
   length (undoStack (pushHistorySnapshot x False s)) = min 60 (Suc (length (undoStack s)))"
  by (auto simp: pushHistorySnapshot_def Let_def HISTORY_LIMIT_def)

lemma keystrokes_Cons:
  "keystrokes P J tab ((d, v) # evs) s
   = keystrokes P J tab evs (textareaChange tab v (advance P J d s))"
  by (simp add: keystrokes_def)

lemma keystrokes_length:
  "\<not> isComposing s \<Longrightarrow> length (undoStack s) \<le> 60 \<Longrightarrow>
   length (undoStack (keystrokes P J tab evs s)) = min 60 (length (undoStack s) + length evs)"
proof (induction evs arbitrary: s)
  case Nil
  then show ?case by (simp add: keystrokes_def)
next
  case (Cons e evs)
  obtain d v where e: "e = (d, v)" by (cases e)
  let ?s1 = "textareaChange tab v (advance P J d s)"
  have nc: "\<not> isComposing (advance P J d s)" using Cons.prems by simp
  have u: "undoStack ?s1 = undoStack (pushHistorySnapshot (rendered s) False (advance P J d s))"
    using textareaChange_undoStack [OF nc] by simp
  have la: "length (undoStack (advance P J d s)) \<le> 60" using Cons.prems by simp
  have l1: "length (undoStack ?s1) = min 60 (Suc (length (undoStack s)))"
    unfolding u using push_length [OF la] by simp
  have c1: "\<not> isComposing ?s1" using Cons.prems by simp
  have b1: "length (undoStack ?s1) \<le> 60" using l1 by simp
  show ?case unfolding e keystrokes_Cons using Cons.IH [OF c1 b1] l1 by simp
qed

text \<open>
  C2, as stated, fails: three keystrokes 100 ms apart in a session just mounted, followed
  by a pause of a second, leave four entries on the undo stack, three more than the one
  the stack held, where the claim expects a single new entry.
\<close>

theorem burst_entries_counterexample:
  "length (undoStack freshSession) = 1
   \<and> length (undoStack (advance okDom okCtor 1000
        (keystrokes okDom okCtor Html burst freshSession))) = 4"
proof -
  have l: "length (undoStack freshSession) \<le> 60" by (simp add: undoStack_fresh)
  show ?thesis
    using keystrokes_length [OF fresh_not_composing l, of okDom okCtor Html burst]
    by (simp add: undoStack_fresh burst_def)
qed

lemma textareaChange_armed:
  assumes "\<not> isComposing x"
  shows "latestRef (textareaChange tab v x) = rendered (textareaChange tab v x)"
    and "onChangeTimer (textareaChange tab v x) = Some (clock (textareaChange tab v x) + 400)"
    and "validationTimer (textareaChange tab v x)
           = Some (clock (textareaChange tab v x) + 600, Some tab)"
    and "rendered (textareaChange tab v x) = setBuffer tab v (rendered x)"
    and "delivered (textareaChange tab v x) = delivered x"
    and "errors (textareaChange tab v x) = errors x"
    and "redoStack (textareaChange tab v x) = []"
  by (simp_all add: textareaChange_fields [OF assms] pushHistorySnapshot_def Let_def)

lemma advance_quiet:
  assumes "onChangeTimer x = Some (clock x + 400)"
    and "validationTimer x = Some (clock x + 600, tb)" and "d < 400"
  shows "advance P J d x = x\<lparr>clock := clock x + d\<rparr>"
  using assms by (simp add: advance_def Let_def)

lemma advance_pause:
  assumes "onChangeTimer x = Some (clock x + 400)"
    and "validationTimer x = Some (clock x + 600, tb)"
  shows "delivered (advance P J p x)
           = (if 400 \<le> p then delivered x @ [latestRef x] else delivered x)"
    and "errors (advance P J p x)
           = (if 600 \<le> p then errors (runValidation P J tb x) else errors x)"
    and "onChangeTimer (advance P J p x) = (if 400 \<le> p then None else onChangeTimer x)"
    and "validationTimer (advance P J p x) = (if 600 \<le> p then None else validationTimer x)"
  using assms by (simp_all add: advance_def Let_def fireOnChange_def runValidation_def)

lemma setBuffer_twice: "setBuffer tab v (setBuffer tab w h) = setBuffer tab v h"
  by (cases tab) (simp_all add: setBuffer_def)

lemma burst_rest:
  assumes "\<not> isComposing x"
    and "latestRef x = rendered x"
    and "onChangeTimer x = Some (clock x + 400)"
    and "validationTimer x = Some (clock x + 600, Some tab)"
    and "rendered x = setBuffer tab w h"
    and "list_all (\<lambda>e. fst e < 400) rest"
  shows "\<not> isComposing (keystrokes P J tab rest x)
    \<and> latestRef (keystrokes P J tab rest x) = rendered (keystrokes P J tab rest x)
    \<and> onChangeTimer (keystrokes P J tab rest x)
        = Some (clock (keystrokes P J tab rest x) + 400)
    \<and> validationTimer (keystrokes P J tab rest x)
        = Some (clock (keystrokes P J tab rest x) + 600, Some tab)
    \<and> rendered (keystrokes P J tab rest x) = setBuffer tab (snd (last ((0, w) # rest))) h
    \<and> delivered (keystrokes P J tab rest x) = delivered x
    \<and> errors (keystrokes P J tab rest x) = errors x"
  using assms
proof (induction rest arbitrary: x w)
  case Nil
  then show ?case by (simp add: keystrokes_def)
next
  case (Cons e rest)
  obtain d v where e: "e = (d, v)" by (cases e)
  from Cons.prems(6) e have d: "d < 400" and r: "list_all (\<lambda>e. fst e < 400) rest" by simp_all
  have a: "advance P J d x = x\<lparr>clock := clock x + d\<rparr>"
    by (rule advance_quiet [OF Cons.prems(3) Cons.prems(4) d])
  let ?x1 = "x\<lparr>clock := clock x + d\<rparr>"
  let ?y = "textareaChange tab v ?x1"
  have nc: "\<not> isComposing ?x1" using Cons.prems(1) by simp
  note f = textareaChange_armed [OF nc, of tab v]
  have c: "\<not> isComposing ?y" using nc by simp
  have rr: "rendered ?y = setBuffer tab v h"
    using f(4) Cons.prems(5) by (simp add: setBuffer_twice)
  have ih: "\<not> isComposing (keystrokes P J tab rest ?y)
    \<and> latestRef (keystrokes P J tab rest ?y) = rendered (keystrokes P J tab rest ?y)
    \<and> onChangeTimer (keystrokes P J tab rest ?y)
        = Some (clock (keystrokes P J tab rest ?y) + 400)
    \<and> validationTimer (keystrokes P J tab rest ?y)
        = Some (clock (keystrokes P J tab rest ?y) + 600, Some tab)
    \<and> rendered (keystrokes P J tab rest ?y) = setBuffer tab (snd (last ((0, v) # rest))) h
    \<and> delivered (keystrokes P J tab rest ?y) = delivered ?y
    \<and> errors (keystrokes P J tab rest ?y) = errors ?y"
    by (rule Cons.IH [OF c f(1) f(2) f(3) rr r])
  have k: "keystrokes P J tab (e # rest) x = keystrokes P J tab rest ?y"
    unfolding e keystrokes_Cons a by (rule refl)
  have dl: "delivered ?y = delivered x" "errors ?y = errors x" using f(5) f(6) by simp_all
  have la: "snd (last ((0, w) # e # rest)) = snd (last ((0 :: nat, v) # rest))"
    by (simp add: e)
  show ?case unfolding k la using ih dl by simp
qed

lemma burst_all:
  assumes "\<not> isComposing s" and "list_all (\<lambda>e. fst e < 400) rest"
  shows "latestRef (keystrokes P J tab ((d0, v0) # rest) s)
           = rendered (keystrokes P J tab ((d0, v0) # rest) s)"
    and "onChangeTimer (keystrokes P J tab ((d0, v0) # rest) s)
           = Some (clock (keystrokes P J tab ((d0, v0) # rest) s) + 400)"
    and "validationTimer (keystrokes P J tab ((d0, v0) # rest) s)
           = Some (clock (keystrokes P J tab ((d0, v0) # rest) s) + 600, Some tab)"
    and "rendered (keystrokes P J tab ((d0, v0) # rest) s)
           = setBuffer tab (snd (last ((d0, v0) # rest))) (rendered s)"
    and "delivered (keystrokes P J tab ((d0, v0) # rest) s) = delivered (advance P J d0 s)"
    and "errors (keystrokes P J tab ((d0, v0) # rest) s) = errors (advance P J d0 s)"
proof -
  let ?x = "textareaChange tab v0 (advance P J d0 s)"
  have nc: "\<not> isComposing (advance P J d0 s)" using assms(1) by simp
  note f = textareaChange_armed [OF nc, of tab v0]
  have c: "\<not> isComposing ?x" using nc by simp
  have rr: "rendered ?x = setBuffer tab v0 (rendered s)" using f(4) by simp
  note b = burst_rest [OF c f(1) f(2) f(3) rr assms(2), of P J]
  have la: "snd (last ((0 :: nat, v0) # rest)) = snd (last ((d0, v0) # rest))"
    by (cases rest) simp_all
  show "latestRef (keystrokes P J tab ((d0, v0) # rest) s)
           = rendered (keystrokes P J tab ((d0, v0) # rest) s)"
    unfolding keystrokes_Cons using b by simp
  show "onChangeTimer (keystrokes P J tab ((d0, v0) # rest) s)
           = Some (clock (keystrokes P J tab ((d0, v0) # rest) s) + 400)"
    unfolding keystrokes_Cons using b by simp
  show "validationTimer (keystrokes P J tab ((d0, v0) # rest) s)
           = Some (clock (keystrokes P J tab ((d0, v0) # rest) s) + 600, Some tab)"
    unfolding keystrokes_Cons using b by simp
  show "rendered (keystrokes P J tab ((d0, v0) # rest) s)
           = setBuffer tab (snd (last ((d0, v0) # rest))) (rendered s)"
    unfolding keystrokes_Cons using b la by simp
  show "delivered (keystrokes P J tab ((d0, v0) # rest) s) = delivered (advance P J d0 s)"
    unfolding keystrokes_Cons using b f(5) by simp
  show "errors (keystrokes P J tab ((d0, v0) # rest) s) = errors (advance P J d0 s)"
    unfolding keystrokes_Cons using b f(6) by simp
qed

lemma keystrokes_redo:
  "\<not> isComposing s \<Longrightarrow> redoStack (keystrokes P J tab ((d0, v0) # rest) s) = []"
proof (induction rest arbitrary: s d0 v0)
  case Nil
  have nc: "\<not> isComposing (advance P J d0 s)" using Nil by simp
  show ?case using textareaChange_armed(7) [OF nc] by (simp add: keystrokes_def)
next
  case (Cons e rest)
  obtain d v where e: "e = (d, v)" by (cases e)
  have nc: "\<not> isComposing (textareaChange tab v0 (advance P J d0 s))" using Cons.prems by simp
  show ?case unfolding e keystrokes_Cons [of P J tab d0 v0] by (rule Cons.IH [OF nc])
qed

lemma runValidation_errors:
  "errors (runValidation P J (Some tab) x) =
     take 6 (case tab of
               Html \<Rightarrow> map (withSource ''HTML'') (validateHTML P (html (latestRef x)))
             | Css \<Rightarrow> map (withSource ''CSS'') (validateCSS (css (latestRef x)))
             | Js \<Rightarrow> map (withSource ''JS'') (validateJS J (js (latestRef x))))"
  by (cases tab) (simp_all add: runValidation_def Let_def)

lemma advance_fresh: "advance P J d freshSession = freshSession\<lparr>clock := d\<rparr>"
  by (simp add: advance_def Let_def freshSession_def mount_def pushHistorySnapshot_def)

text \<open>
  C2, amended. Outside a composition every change event of a textarea commits its own
  history entry at once: after a burst of \<open>n\<close> keystrokes the undo stack, which held
  \<open>k\<close> entries, at most 60, holds \<open>min 60 (k + n)\<close>, however close together the keystrokes
  are, and the redo stack is empty; the pause after the burst changes neither stack.
  What waits for the pause is propagation and validation. When each keystroke after the
  first comes less than 400 ms after the one before, the sink receives nothing and the
  diagnostics stay as they are while the burst lasts; a pause of 400 ms or more brings
  exactly one call of the sink, with the buffers as they are after the last keystroke,
  and a pause of 600 ms or more one validation of the edited buffer as it is then, at
  most six findings; after that no timer is pending.
\<close>

theorem keystrokes_history:
  assumes "\<not> isComposing s" and "length (undoStack s) \<le> 60"
  shows "length (undoStack (keystrokes P J tab ((d0, v0) # rest) s))
           = min 60 (length (undoStack s) + Suc (length rest))
    \<and> redoStack (keystrokes P J tab ((d0, v0) # rest) s) = []
    \<and> undoStack (advance P J pause (keystrokes P J tab ((d0, v0) # rest) s))
        = undoStack (keystrokes P J tab ((d0, v0) # rest) s)
    \<and> redoStack (advance P J pause (keystrokes P J tab ((d0, v0) # rest) s))
        = redoStack (keystrokes P J tab ((d0, v0) # rest) s)
    \<and> (list_all (\<lambda>e. fst e < 400) rest \<longrightarrow>
         rendered (keystrokes P J tab ((d0, v0) # rest) s)
           = setBuffer tab (snd (last ((d0, v0) # rest))) (rendered s)
         \<and> delivered (keystrokes P J tab ((d0, v0) # rest) s) = delivered (advance P J d0 s)
         \<and> errors (keystrokes P J tab ((d0, v0) # rest) s) = errors (advance P J d0 s)
         \<and> delivered (advance P J pause (keystrokes P J tab ((d0, v0) # rest) s))
             = (if 400 \<le> pause
                then delivered (advance P J d0 s)
                     @ [setBuffer tab (snd (last ((d0, v0) # rest))) (rendered s)]
                else delivered (advance P J d0 s))
         \<and> errors (advance P J pause (keystrokes P J tab ((d0, v0) # rest) s))
             = (if 600 \<le> pause
                then take 6
                  (case tab of
                     Html \<Rightarrow> map (withSource ''HTML'')
                       (validateHTML P
                          (html (setBuffer tab (snd (last ((d0, v0) # rest))) (rendered s))))
                   | Css \<Rightarrow> map (withSource ''CSS'')
                       (validateCSS
                          (css (setBuffer tab (snd (last ((d0, v0) # rest))) (rendered s))))
                   | Js \<Rightarrow> map (withSource ''JS'')
                       (validateJS J
                          (js (setBuffer tab (snd (last ((d0, v0) # rest))) (rendered s)))))
                else errors (advance P J d0 s))
         \<and> onChangeTimer (advance P J pause (keystrokes P J tab ((d0, v0) # rest) s))
             = (if 400 \<le> pause then None
                else onChangeTimer (keystrokes P J tab ((d0, v0) # rest) s))
         \<and> validationTimer (advance P J pause (keystrokes P J tab ((d0, v0) # rest) s))
             = (if 600 \<le> pause then None
                else validationTimer (keystrokes P J tab ((d0, v0) # rest) s)))"
proof (intro conjI impI)
  let ?k = "keystrokes P J tab ((d0, v0) # rest) s"
  show "length (undoStack ?k) = min 60 (length (undoStack s) + Suc (length rest))"
    using keystrokes_length [OF assms, of P J tab "(d0, v0) # rest"] by simp
  show "redoStack ?k = []" by (rule keystrokes_redo [OF assms(1)])
  show "undoStack (advance P J pause ?k) = undoStack ?k" by simp
  show "redoStack (advance P J pause ?k) = redoStack ?k" by simp
next
  let ?k = "keystrokes P J tab ((d0, v0) # rest) s"
  let ?h = "setBuffer tab (snd (last ((d0, v0) # rest))) (rendered s)"
  assume g: "list_all (\<lambda>e. fst e < 400) rest"
  note b = burst_all [OF assms(1) g, of P J tab d0 v0]
  note p = advance_pause [OF b(2) b(3), of P J pause]
  have l: "latestRef ?k = ?h" using b(1) b(4) by simp
  show "rendered ?k = ?h" by (rule b(4))
  show "delivered ?k = delivered (advance P J d0 s)" by (rule b(5))
  show "errors ?k = errors (advance P J d0 s)" by (rule b(6))
  show "delivered (advance P J pause ?k)
             = (if 400 \<le> pause then delivered (advance P J d0 s) @ [?h]
                else delivered (advance P J d0 s))"
    unfolding p(1) l b(5) by (rule refl)
  show "errors (advance P J pause ?k)
             = (if 600 \<le> pause
                then take 6
                  (case tab of
                     Html \<Rightarrow> map (withSource ''HTML'') (validateHTML P (html ?h))
                   | Css \<Rightarrow> map (withSource ''CSS'') (validateCSS (css ?h))
                   | Js \<Rightarrow> map (withSource ''JS'') (validateJS J (js ?h)))
                else errors (advance P J d0 s))"
    unfolding p(2) b(6) runValidation_errors l by (rule refl)
  show "onChangeTimer (advance P J pause ?k)
             = (if 400 \<le> pause then None else onChangeTimer ?k)"
    by (rule p(3))
  show "validationTimer (advance P J pause ?k)
             = (if 600 \<le> pause then None else validationTimer ?k)"
    by (rule p(4))
qed

theorem keystrokes_history_witness:
  "\<not> isComposing freshSession \<and> length (undoStack freshSession) \<le> 60
   \<and> list_all (\<lambda>e. fst e < 400) [(100 :: nat, ''ab''), (100, ''abc'')]
   \<and> length (undoStack (keystrokes okDom okCtor Html burst freshSession)) = 4
   \<and> redoStack (keystrokes okDom okCtor Html burst freshSession) = []
   \<and> undoStack (advance okDom okCtor 600 (keystrokes okDom okCtor Html burst freshSession))
       = undoStack (keystrokes okDom okCtor Html burst freshSession)
   \<and> delivered (keystrokes okDom okCtor Html burst freshSession) = []
   \<and> delivered (advance okDom okCtor 600 (keystrokes okDom okCtor Html burst freshSession))
       = [\<lparr>html = ''abc'', css = [], js = []\<rparr>]
   \<and> errors (advance okDom okCtor 600 (keystrokes okDom okCtor Html burst freshSession)) = []
   \<and> onChangeTimer (advance okDom okCtor 600
        (keystrokes okDom okCtor Html burst freshSession)) = None
   \<and> validationTimer (advance okDom okCtor 600
        (keystrokes okDom okCtor Html burst freshSession)) = None"
proof -
  have l: "length (undoStack freshSession) \<le> 60" by (simp add: undoStack_fresh)
  have g: "list_all (\<lambda>e. fst e < 400) [(100 :: nat, ''ab''), (100, ''abc'')]" by simp
  have b: "burst = (0, ''a'') # [(100, ''ab''), (100, ''abc'')]" by (simp add: burst_def)
  show ?thesis
    using keystrokes_history [OF fresh_not_composing l, of okDom okCtor Html 0 "''a''"
        "[(100, ''ab''), (100, ''abc'')]" 600]
      fresh_not_composing g
    unfolding b
    by (simp add: undoStack_fresh advance_fresh delivered_fresh rendered_fresh setBuffer_def
        emptyProject_def validateHTML_def okDom_def)
qed

subsection \<open>The style validator\<close>

lemma upper_is_word: "isUpperAZ c \<Longrightarrow> isWordChar c"
  by (simp add: isWordChar_def)

lemma upperRun_iff:
  "upperRun cs = (\<exists>w v. cs = w @ v \<and> list_all isUpperAZ w \<and> (v = [] \<or> \<not> isWordChar (hd v)))"
proof (induction cs)
  case Nil
  show ?case by simp
next
  case (Cons c cs)
  show ?case
  proof (cases "isUpperAZ c")
    case True
    have "(\<exists>w v. c # cs = w @ v \<and> list_all isUpperAZ w \<and> (v = [] \<or> \<not> isWordChar (hd v)))
          = (\<exists>w v. cs = w @ v \<and> list_all isUpperAZ w \<and> (v = [] \<or> \<not> isWordChar (hd v)))"
      (is "?L = ?R")
    proof
      assume ?L
      then obtain w v where h: "c # cs = w @ v" "list_all isUpperAZ w" "v = [] \<or> \<not> isWordChar (hd v)"
        by blast
      show ?R
      proof (cases w)
        case Nil
        with h True upper_is_word show ?thesis by auto
      next
        case (Cons a w')
        with h have "cs = w' @ v" "list_all isUpperAZ w'" by auto
        with h(3) show ?thesis by blast
      qed
    next
      assume ?R
      then obtain w v where h: "cs = w @ v" "list_all isUpperAZ w" "v = [] \<or> \<not> isWordChar (hd v)"
        by blast
      then have "c # cs = (c # w) @ v" "list_all isUpperAZ (c # w)" using True by auto
      with h(3) show ?L by blast
    qed
    with True Cons.IH show ?thesis by simp
  next
    case False
    have "(\<exists>w v. c # cs = w @ v \<and> list_all isUpperAZ w \<and> (v = [] \<or> \<not> isWordChar (hd v)))
          = (\<not> isWordChar c)" (is "?L = ?R")
    proof
      assume ?L
      then obtain w v where h: "c # cs = w @ v" "list_all isUpperAZ w" "v = [] \<or> \<not> isWordChar (hd v)"
        by blast
      show ?R
      proof (cases w)
        case Nil
        with h show ?thesis by auto
      next
        case (Cons a w')
        with h False show ?thesis by auto
      qed
    next
      assume ?R
      then have "c # cs = [] @ (c # cs)" "list_all isUpperAZ []" "\<not> isWordChar (hd (c # cs))" by auto
      then show ?L by blast
    qed
    with False show ?thesis by simp
  qed
qed

lemma matchFrom_iff: "matchFrom pw s = upperWord pw s"
proof (induction s arbitrary: pw)
  case Nil
  show ?case by (simp add: upperWord_def)
next
  case (Cons c cs)
  have "upperWord pw (c # cs) = ((\<not> pw \<and> isUpperAZ c \<and> upperRun cs) \<or> upperWord (isWordChar c) cs)"
    (is "?L = (?A \<or> ?B)")
  proof
    assume ?L
    then obtain u w v where h: "c # cs = u @ w @ v" "w \<noteq> []" "list_all isUpperAZ w"
      "if u = [] then \<not> pw else \<not> isWordChar (last u)" "v = [] \<or> \<not> isWordChar (hd v)"
      unfolding upperWord_def by blast
    show "?A \<or> ?B"
    proof (cases u)
      case Nil
      from h(2) obtain a w' where w: "w = a # w'" by (cases w) auto
      with Nil h have "a = c" "cs = w' @ v" "list_all isUpperAZ w'" "isUpperAZ c" "\<not> pw" by auto
      with h(5) have ?A unfolding upperRun_iff by blast
      then show ?thesis ..
    next
      case (Cons a u')
      with h have cs: "cs = u' @ w @ v" and a: "a = c" by auto
      have "if u' = [] then \<not> isWordChar c else \<not> isWordChar (last u')"
        using h(4) Cons a by (auto split: if_splits)
      with cs h(2,3,5) have ?B unfolding upperWord_def by blast
      then show ?thesis ..
    qed
  next
    assume "?A \<or> ?B"
    then show ?L
    proof
      assume ?A
      then obtain w v where h: "cs = w @ v" "list_all isUpperAZ w" "v = [] \<or> \<not> isWordChar (hd v)"
        and c: "\<not> pw" "isUpperAZ c"
        unfolding upperRun_iff by blast
      have "c # cs = [] @ (c # w) @ v" "c # w \<noteq> []" "list_all isUpperAZ (c # w)"
        using h c by auto
      with c(1) h(3) show ?L unfolding upperWord_def
        by (intro exI [of _ "[]"] exI [of _ "c # w"] exI [of _ v]) simp
    next
      assume ?B
      then obtain u w v where h: "cs = u @ w @ v" "w \<noteq> []" "list_all isUpperAZ w"
        "if u = [] then \<not> isWordChar c else \<not> isWordChar (last u)" "v = [] \<or> \<not> isWordChar (hd v)"
        unfolding upperWord_def by blast
      have "c # cs = (c # u) @ w @ v" using h(1) by simp
      moreover have "\<not> isWordChar (last (c # u))" using h(4) by (auto split: if_splits)
      ultimately show ?L unfolding upperWord_def using h(2,3,5)
        by (intro exI [of _ "c # u"] exI [of _ w] exI [of _ v]) simp
    qed
  qed
  with Cons.IH show ?case by simp
qed

lemma warnings_validateCSS:
  "warnings (validateCSS str) = (if upperWordTest str then [caseWarning] else [])"
  by (simp add: warnings_def validateCSS_def caseWarning_def split: prod.splits)

lemma upperOnlyWord_upperWord: "upperOnlyWord s = upperWord False s"
proof -
  have e: "(if u = [] then \<not> False else \<not> isWordChar (last u))
           = (u = [] \<or> \<not> isWordChar (last u))" for u :: string
    by simp
  show ?thesis unfolding upperOnlyWord_def upperWord_def e by (rule refl)
qed

lemmas char_classes = isUpperAZ_def isLowerAZ_def isDigit_def isWordChar_def

text \<open>
  C6, as stated, fails in both directions: the text \<open>A\<close> has no two capital letters in a
  row and gets the warning, and the text \<open>aBCd\<close> has two in a row and gets none.
\<close>

theorem case_warning_counterexample:
  "\<not> hasUpperRun2 ''A'' \<and> warnings (validateCSS ''A'') = [caseWarning]
   \<and> hasUpperRun2 ''aBCd'' \<and> warnings (validateCSS ''aBCd'') = []"
  by (simp add: warnings_validateCSS upperWordTest_def char_classes)

text \<open>
  C6, amended. The validator emits the case-sensitivity warning, once, exactly when the
  text contains a whole word made of capital letters only: one or more letters
  \<open>A\<close> to \<open>Z\<close> with no word character (letter, digit or underscore) directly before or
  after them. Otherwise it emits no warning.
\<close>

theorem case_warning_iff:
  "warnings (validateCSS str) = (if upperOnlyWord str then [caseWarning] else [])"
  by (simp add: warnings_validateCSS upperWordTest_def matchFrom_iff upperOnlyWord_upperWord)

theorem case_warning_iff_witness:
  "upperOnlyWord ''x: RED;'' \<and> warnings (validateCSS ''x: RED;'') = [caseWarning]"
proof -
  have w: "upperOnlyWord ''x: RED;''"
    unfolding upperOnlyWord_def
    by (intro exI [of _ "''x: ''"] exI [of _ "''RED''"] exI [of _ "'';''"])
      (simp add: char_classes)
  then show ?thesis using case_warning_iff [of "''x: RED;''"] by simp
qed

subsection \<open>Inserting snippets and the favourites\<close>

lemma afterRender_keeps [simp]:
  "rendered (afterRender old s) = rendered s"
  "activeTab (afterRender old s) = activeTab s"
  "favs (afterRender old s) = favs s"
  "assistResult (afterRender old s) = assistResult s"
  by (simp_all add: afterRender_def)

lemma insertSnippet_script_from_style:
  assumes "activeTab s = Css" and "kind m = KJs"
  shows "rendered (insertSnippet snip (Some m) keepOpen u (a, b) s)
           = (rendered s)\<lparr>js := take a (css (rendered s)) @ snip @ drop b (css (rendered s))\<rparr>"
    and "activeTab (insertSnippet snip (Some m) keepOpen u (a, b) s) = Js"
  using assms
  by (simp_all add: insertSnippet_def Let_def kindOfTab_def tabOfKind_def areaRef_def
      getBuffer_def normalizeSnippetForBeginners_def saveRecent_def flushOnChange_def
      scheduleValidation_def pushHistorySnapshot_def)

text \<open>On the script tab itself the snippet is spliced into the script text.\<close>

lemma insertSnippet_same_tab:
  assumes "activeTab s = Js" and "kind m = KJs"
  shows "rendered (insertSnippet snip (Some m) keepOpen u (a, b) s)
           = (rendered s)\<lparr>js := take a (js (rendered s)) @ snip @ drop b (js (rendered s))\<rparr>"
  using assms
  by (simp add: insertSnippet_def Let_def kindOfTab_def tabOfKind_def areaRef_def
      getBuffer_def normalizeSnippetForBeginners_def saveRecent_def flushOnChange_def
      scheduleValidation_def pushHistorySnapshot_def)

lemma insertSnippet_favs [simp]:
  "favs (insertSnippet snip meta keepOpen u sel s) = favs s"
  "assistResult (insertSnippet snip meta keepOpen u sel s) = assistResult s"
  by (simp_all add: insertSnippet_def Let_def saveRecent_def flushOnChange_def
      scheduleValidation_def pushHistorySnapshot_def split: option.splits)

lemma assistantInsert_grows:
  "assistResult s = Some r \<Longrightarrow>
   favs (assistantInsertClick u sel s) = r # favs s
   \<and> assistResult (assistantInsertClick u sel s) = Some r"
  by (simp add: assistantInsertClick_def saveFavs_def)

lemma assistantInsert_iter:
  "assistResult s = Some r \<Longrightarrow>
   favs ((assistantInsertClick u sel ^^ n) s) = replicate n r @ favs s
   \<and> assistResult ((assistantInsertClick u sel ^^ n) s) = Some r"
proof (induction n)
  case 0
  then show ?case by simp
next
  case (Suc n)
  then show ?case using assistantInsert_grows [of "(assistantInsertClick u sel ^^ n) s" r u sel]
    by (simp add: replicate_app_Cons_same)
qed

lemma toggleFav_bound:
  "length (favs s) \<le> 30 \<Longrightarrow> length (favs (toggleFav x u s)) \<le> 30"
  by (auto simp: toggleFav_def saveFavs_def intro: le_trans [OF length_filter_le])

lemma assist_generated: "assistResult assistantSession = Some generatedSnip"
  by code_simp

lemma favs_assistantSession: "favs assistantSession = []"
  by (simp add: assistantSession_def runAssistantGenerate_def Let_def freshSession_def mount_def
      pushHistorySnapshot_def HISTORY_LIMIT_def)

text \<open>
  C7. On the style tab the script textarea is not mounted, so \<^verbatim>\<open>insertSnippet\<close> falls
  back to the style textarea and takes its text and its selection: a script snippet
  inserted with the caret at offset 1 of the style text \<open>a{}\<close> switches to the script tab
  and leaves markup and style alone, but the script buffer becomes \<open>aX();{}\<close>, the style
  text with the snippet spliced in, and its own text \<open>let x;\<close> is lost.
\<close>

theorem insert_script_from_style_tab:
  "rendered styleTabSession = \<lparr>html = ''<p></p>'', css = ''a{}'', js = ''let x;''\<rparr>
   \<and> rendered (insertSnippet (snippet scriptSnip) (Some scriptSnip) False ''k3j9x2a'' (1, 1)
        styleTabSession) = \<lparr>html = ''<p></p>'', css = ''a{}'', js = ''aX();{}''\<rparr>
   \<and> activeTab (insertSnippet (snippet scriptSnip) (Some scriptSnip) False ''k3j9x2a'' (1, 1)
        styleTabSession) = Js
   \<and> take 1 (js (rendered styleTabSession)) @ snippet scriptSnip
        @ drop 1 (js (rendered styleTabSession)) = ''lX();et x;''"
proof -
  have r: "rendered styleTabSession = \<lparr>html = ''<p></p>'', css = ''a{}'', js = ''let x;''\<rparr>"
    by (simp add: styleTabSession_def selectTab_def mount_def Let_def)
  have t: "activeTab styleTabSession = Css"
    by (simp add: styleTabSession_def selectTab_def mount_def Let_def)
  have k: "kind scriptSnip = KJs" by (simp add: scriptSnip_def)
  show ?thesis
    using insertSnippet_script_from_style [OF t k, of "snippet scriptSnip" False "''k3j9x2a''" 1 1]
    by (simp add: r scriptSnip_def)
qed

text \<open>
  C8. Starring caps the favourites at 30 (\<open>toggleFav_bound\<close>), but the \<^verbatim>\<open>Insert\<close> button
  of the assistant prepends the generated snippet without a cap: pressed 31 times in a
  session that started without favourites, it leaves 31 of them.
\<close>

theorem assistant_insert_exceeds_capacity:
  "length (favs ((assistantInsertClick ''k3j9x2a'' (0, 0) ^^ 31) assistantSession)) = 31"
  using assistantInsert_iter [OF assist_generated, where u = "''k3j9x2a''" and sel = "(0, 0)" and n = 31]
  by (simp add: favs_assistantSession)

subsection \<open>Snippet search\<close>

lemma insort_key_map:
  "insort_key g (f x) (map f ys) = map f (insort_key (\<lambda>a. g (f a)) x ys)"
  by (induction ys) simp_all

lemma sort_key_map: "sort_key g (map f xs) = map f (sort_key (\<lambda>a. g (f a)) xs)"
  by (induction xs) (simp_all add: insort_key_map)

lemma dedupe_nths:
  "dedupe seen xs =
   nths xs {i. i < length xs \<and> snippet (xs ! i) \<notin> seen
              \<and> (\<forall>j<i. snippet (xs ! j) \<noteq> snippet (xs ! i))}"
proof (induction xs arbitrary: seen)
  case Nil
  show ?case by simp
next
  case (Cons x xs)
  let ?A = "\<lambda>sn ys. {i. i < length ys \<and> snippet (ys ! i) \<notin> sn
              \<and> (\<forall>j<i. snippet (ys ! j) \<noteq> snippet (ys ! i))}"
  have shift: "{j. Suc j \<in> ?A seen (x # xs)} = ?A (insert (snippet x) seen) xs"
    (is "?L = ?R")
  proof (rule set_eqI)
    fix j
    have "(\<forall>k<Suc j. snippet ((x # xs) ! k) \<noteq> snippet (xs ! j))
          = (snippet x \<noteq> snippet (xs ! j) \<and> (\<forall>k<j. snippet (xs ! k) \<noteq> snippet (xs ! j)))"
      by (simp add: All_less_Suc2)
    then show "(j \<in> ?L) = (j \<in> ?R)" by auto
  qed
  show ?case
  proof (cases "snippet x \<in> seen")
    case True
    then have ins: "insert (snippet x) seen = seen" by auto
    have z: "0 \<notin> ?A seen (x # xs)" using True by simp
    show ?thesis
      using True z shift ins Cons.IH [of seen] by (simp add: nths_Cons)
  next
    case False
    have z: "0 \<in> ?A seen (x # xs)" using False by simp
    show ?thesis
      using False z shift Cons.IH [of "insert (snippet x) seen"] by (simp add: nths_Cons)
  qed
qed

lemma dedupe_firstByBody: "dedupe {} xs = firstByBody xs"
  by (simp add: dedupe_nths firstByBody_def)

lemma getFilteredSnippets_sorted:
  "getFilteredSnippets s =
   dedupe {} (sort_key (\<lambda>x. - searchScore s x) (filter (passes s) (SNIPPETS @ favs s)))"
proof -
  let ?pool = "SNIPPETS @ favs s"
  let ?f = "\<lambda>x. (x, searchScore s x)"
  have p: "(\<lambda>x. searchQuery s = [] \<or> snd x > 5) \<circ> ?f = passes s"
    by (rule ext) (simp add: passes_def)
  have k: "(\<lambda>a. - snd (?f a)) = (\<lambda>x. - searchScore s x)"
    by (rule ext) simp
  have "map fst (sort_key (\<lambda>x. - snd x)
          (filter (\<lambda>x. searchQuery s = [] \<or> snd x > 5) (map ?f ?pool)))
        = map fst (map ?f (sort_key (\<lambda>x. - searchScore s x) (filter (passes s) ?pool)))"
    by (simp only: filter_map sort_key_map p k)
  also have "\<dots> = sort_key (\<lambda>x. - searchScore s x) (filter (passes s) ?pool)"
    by (simp add: comp_def)
  finally show ?thesis
    by (simp add: getFilteredSnippets_def Let_def searchScore_def searchQuery_def)
qed

lemma searchScore_formula:
  "searchScore s x =
     (if kind x = kindOfTab (activeTab s) then 50 else 0)
     + (if kind x = KAll then 30 else 0)
     + (if \<exists>f \<in> set (favs s). snippet f = snippet x then 10 else 0)
     + (if searchQuery s = [] then 0
        else (if prefix (searchQuery s) (toLowerCase (label x)) then 20 else 0)
             + (if sublist (searchQuery s)
                    (toLowerCase (label x @ '' '' @ (case description x of None \<Rightarrow> [] | Some d \<Rightarrow> d)
                       @ '' '' @ snippet x @ '' ''
                       @ join '' '' (case tags x of None \<Rightarrow> [] | Some ts \<Rightarrow> ts)))
                then 10 else 0))"
  by (simp add: searchScore_def score_def favorited_def list_ex_iff startsWith_def
      includesStr_def haystack_def)
lemma flex_code_labels:
  "map label (getFilteredSnippets flexSession) =
     [''Section (semantic)'', ''Header'', ''Footer'', ''Button (accessible)'', ''Card'', ''Image'',
      ''Flex row center'', ''Flex column gap'', ''Basic starter (HTML+CSS+JS)'']"
  by code_simp

lemma flex_claim_labels:
  "map label (claimSearch (SNIPPETS @ favs flexSession) (favs flexSession)
     (activeTab flexSession) (query flexSession)) =
     [''Section (semantic)'', ''Header'', ''Footer'', ''Button (accessible)'', ''Card'', ''Image'',
      ''Basic starter (HTML+CSS+JS)'', ''Flex row center'', ''Flex column gap'']"
  by code_simp

text \<open>
  C5, as stated, fails. With the markup tab active, no favourites and the query \<open>flex\<close>,
  the code gives the entry labelled \<open>Flex row center\<close> the 20 points for a label that
  starts with the query, because it lower-cases the label first; the entry ties with the
  starter scaffold at 30 and precedes it in the pool. Scored as the claim words it, the
  label \<open>Flex row center\<close> does not start with \<open>flex\<close>, the entry gets 10 and comes
  after the scaffold.
\<close>

theorem search_claim_counterexample:
  "getFilteredSnippets flexSession
     \<noteq> claimSearch (SNIPPETS @ favs flexSession) (favs flexSession)
         (activeTab flexSession) (query flexSession)
   \<and> map label (getFilteredSnippets flexSession) =
     [''Section (semantic)'', ''Header'', ''Footer'', ''Button (accessible)'', ''Card'', ''Image'',
      ''Flex row center'', ''Flex column gap'', ''Basic starter (HTML+CSS+JS)'']
   \<and> map label (claimSearch (SNIPPETS @ favs flexSession) (favs flexSession)
         (activeTab flexSession) (query flexSession)) =
     [''Section (semantic)'', ''Header'', ''Footer'', ''Button (accessible)'', ''Card'', ''Image'',
      ''Basic starter (HTML+CSS+JS)'', ''Flex row center'', ''Flex column gap'']"
proof -
  have "map label (getFilteredSnippets flexSession)
        \<noteq> map label (claimSearch (SNIPPETS @ favs flexSession) (favs flexSession)
            (activeTab flexSession) (query flexSession))"
    unfolding flex_code_labels flex_claim_labels by simp
  then have "getFilteredSnippets flexSession
     \<noteq> claimSearch (SNIPPETS @ favs flexSession) (favs flexSession)
         (activeTab flexSession) (query flexSession)"
    by auto
  then show ?thesis using flex_code_labels flex_claim_labels by simp
qed

text \<open>
  C5, amended. With \<open>q\<close> the trimmed, lower-cased query, an entry scores 50 for the kind
  of the active tab, 30 more for kind \<open>all\<close>, 10 more when a favourite has its body, and,
  when \<open>q\<close> is not empty, 20 more when its lower-cased label starts with \<open>q\<close> and 10 more
  when the lower-cased text of label, description, body and tags, joined by spaces,
  contains \<open>q\<close> (\<open>searchScore\<close>). An entry passes when \<open>q\<close> is empty or its score is above
  5. The search returns the list \<open>L\<close> of the passing entries of the pool (catalogue, then
  favourites) in descending order of score, entries of equal score in pool order, without
  the entries whose body an earlier entry of \<open>L\<close> has.
\<close>

theorem search_characterisation:
  "searchQuery s = toLowerCase (trim (query s))
   \<and> (\<forall>x. searchScore s x =
         (if kind x = kindOfTab (activeTab s) then 50 else 0)
         + (if kind x = KAll then 30 else 0)
         + (if \<exists>f \<in> set (favs s). snippet f = snippet x then 10 else 0)
         + (if searchQuery s = [] then 0
            else (if prefix (searchQuery s) (toLowerCase (label x)) then 20 else 0)
                 + (if sublist (searchQuery s)
                        (toLowerCase
                           (label x @ '' '' @ (case description x of None \<Rightarrow> [] | Some d \<Rightarrow> d)
                            @ '' '' @ snippet x @ '' ''
                            @ join '' '' (case tags x of None \<Rightarrow> [] | Some ts \<Rightarrow> ts)))
                    then 10 else 0)))
   \<and> (\<forall>x. passes s x = (searchQuery s = [] \<or> 5 < searchScore s x))
   \<and> (\<exists>L. sorted_wrt (\<lambda>a b. searchScore s b \<le> searchScore s a) L
        \<and> (\<forall>k. filter (\<lambda>x. searchScore s x = k) L
                = filter (\<lambda>x. searchScore s x = k) (filter (passes s) (SNIPPETS @ favs s)))
        \<and> getFilteredSnippets s = firstByBody L)"
proof (intro conjI allI)
  show "searchQuery s = toLowerCase (trim (query s))" by (simp add: searchQuery_def)
  show "passes s x = (searchQuery s = [] \<or> 5 < searchScore s x)" for x
    by (simp add: passes_def)
  show "searchScore s x =
         (if kind x = kindOfTab (activeTab s) then 50 else 0)
         + (if kind x = KAll then 30 else 0)
         + (if \<exists>f \<in> set (favs s). snippet f = snippet x then 10 else 0)
         + (if searchQuery s = [] then 0
            else (if prefix (searchQuery s) (toLowerCase (label x)) then 20 else 0)
                 + (if sublist (searchQuery s)
                        (toLowerCase
                           (label x @ '' '' @ (case description x of None \<Rightarrow> [] | Some d \<Rightarrow> d)
                            @ '' '' @ snippet x @ '' ''
                            @ join '' '' (case tags x of None \<Rightarrow> [] | Some ts \<Rightarrow> ts)))
                    then 10 else 0))" for x
    by (rule searchScore_formula)
  let ?L = "sort_key (\<lambda>x. - searchScore s x) (filter (passes s) (SNIPPETS @ favs s))"
  have "sorted (map (\<lambda>x. - searchScore s x) ?L)" by (rule sorted_sort_key)
  then have a: "sorted_wrt (\<lambda>a b. searchScore s b \<le> searchScore s a) ?L"
    by (simp add: sorted_map)
  have b: "filter (\<lambda>x. searchScore s x = k) ?L
           = filter (\<lambda>x. searchScore s x = k) (filter (passes s) (SNIPPETS @ favs s))" for k
    using sort_key_stable [of "\<lambda>x. - searchScore s x" "- k"
        "filter (passes s) (SNIPPETS @ favs s)"]
    by simp
  have c: "getFilteredSnippets s = firstByBody ?L"
    by (simp add: getFilteredSnippets_sorted dedupe_firstByBody)
  from a b c
  show "\<exists>L. sorted_wrt (\<lambda>a b. searchScore s b \<le> searchScore s a) L
        \<and> (\<forall>k. filter (\<lambda>x. searchScore s x = k) L
                = filter (\<lambda>x. searchScore s x = k) (filter (passes s) (SNIPPETS @ favs s)))
        \<and> getFilteredSnippets s = firstByBody L"
    by blast
qed

theorem search_characterisation_witness:
  "\<exists>L. sorted_wrt (\<lambda>a b. searchScore flexSession b \<le> searchScore flexSession a) L
      \<and> filter (\<lambda>x. searchScore flexSession x = 30) L
          = filter (\<lambda>x. searchScore flexSession x = 30)
              (filter (passes flexSession) (SNIPPETS @ favs flexSession))
      \<and> getFilteredSnippets flexSession = firstByBody L
      \<and> map label (firstByBody L) =
          [''Section (semantic)'', ''Header'', ''Footer'', ''Button (accessible)'', ''Card'',
           ''Image'', ''Flex row center'', ''Flex column gap'', ''Basic starter (HTML+CSS+JS)'']"
proof -
  from search_characterisation [of flexSession, THEN conjunct2, THEN conjunct2, THEN conjunct2]
  obtain L where
    a: "sorted_wrt (\<lambda>a b. searchScore flexSession b \<le> searchScore flexSession a) L" and
    b: "\<And>k. filter (\<lambda>x. searchScore flexSession x = k) L
          = filter (\<lambda>x. searchScore flexSession x = k)
              (filter (passes flexSession) (SNIPPETS @ favs flexSession))" and
    c: "getFilteredSnippets flexSession = firstByBody L"
    by blast
  from c flex_code_labels have d: "map label (firstByBody L) =
          [''Section (semantic)'', ''Header'', ''Footer'', ''Button (accessible)'', ''Card'',
           ''Image'', ''Flex row center'', ''Flex column gap'', ''Basic starter (HTML+CSS+JS)'']"
    by simp
  show ?thesis
    by (rule exI [of _ L]) (simp only: a b [of 30] c d simp_thms)
qed

subsection \<open>Question search\<close>

lemma staleRace_results:
  assumes "trim older \<noteq> []" and "trim newer \<noteq> []"
  shows "results (staleRace older newer olderItems newerItems now p) = olderItems"
  using assms
  by (simp add: staleRace_def Let_def doSearch_def cacheSettled_def searchSettled_def)

lemma trim_flex: "trim ''flex'' = ''flex''" and trim_grid: "trim ''grid'' = ''grid''"
  by (simp_all add: trim_def isSpace_def)

text \<open>
  C9, as stated, fails: a search for \<open>flex\<close> is started, then one for \<open>grid\<close>; the
  response for \<open>grid\<close> arrives first and the response for \<open>flex\<close> after it. The panel ends
  up showing the results of the older request.
\<close>

theorem stale_response_counterexample:
  "results (staleRace ''flex'' ''grid'' [questionA] [questionB] 0 initialPanel) = [questionA]
   \<and> [questionA] \<noteq> [questionB]"
  using staleRace_results [of "''flex''" "''grid''" "[questionA]" "[questionB]" 0 initialPanel]
  by (simp add: trim_flex trim_grid questionA_def questionB_def)

text \<open>
  C9, amended. The panel has no request-ordering protection: it shows the items of
  whichever response resolved last. When the older of two requests resolves after the
  newer one, its items replace the newer request's items.
\<close>

theorem last_response_wins:
  assumes "trim older \<noteq> []" and "trim newer \<noteq> []"
  shows "results (staleRace older newer olderItems newerItems now p) = olderItems
    \<and> (inflight p i = Some (qstr, AwaitSearch) \<longrightarrow>
         results (searchSettled i (Fulfilled (Some items)) p) = items)"
  using staleRace_results [OF assms] by (simp add: searchSettled_def)

theorem last_response_wins_witness:
  "trim ''grid'' \<noteq> [] \<and> trim ''flex'' \<noteq> []
   \<and> results (staleRace ''grid'' ''flex'' [questionB] [questionA] 5 initialPanel) = [questionB]
   \<and> inflight (cacheSettled 0 (Fulfilled None) 5 (doSearch ''grid'' initialPanel)) 0
       = Some (''grid'', AwaitSearch)
   \<and> results (searchSettled 0 (Fulfilled (Some [questionB]))
        (cacheSettled 0 (Fulfilled None) 5 (doSearch ''grid'' initialPanel))) = [questionB]"
proof -
  have g: "trim ''grid'' \<noteq> []" and f: "trim ''flex'' \<noteq> []"
    by (simp_all add: trim_flex trim_grid)
  have i: "inflight (cacheSettled 0 (Fulfilled None) 5 (doSearch ''grid'' initialPanel)) 0
       = Some (''grid'', AwaitSearch)"
    by (simp add: cacheSettled_def doSearch_def trim_grid initialPanel_def)
  show ?thesis
    using last_response_wins [OF g f, of "[questionB]" "[questionA]" 5 initialPanel 0 "''grid''"
        "[questionB]"]
      last_response_wins [OF g f, of "[questionB]" "[questionA]" 5
        "cacheSettled 0 (Fulfilled None) 5 (doSearch ''grid'' initialPanel)" 0 "''grid''"
        "[questionB]"]
      g f i
    by simp
qed
end
